theory Spec2Isabelle
  imports Complex_Main
begin

section \<open>JavaScript values\<close>

text \<open>
  The program is \<^verbatim>\<open>src/index.js\<close>. A cell of a dataset is a number, a string, \<^verbatim>\<open>null\<close> or
  absent (\<^verbatim>\<open>undefined\<close>). Numbers are modelled by their exact rational value, extended with
  the two infinities and NaN; this agrees with IEEE doubles whenever every intermediate
  result is representable (integers below \<open>2^53\<close>, short decimals); negative zero is not
  distinguished from zero (the program never divides by a zero it has not tested for).
  Strings are lists of 8-bit code units.
\<close>

datatype jsnum = Fin rat | PInf | NInf | NaN

datatype jsval = JNum jsnum | JStr string | JNull | JUndef

definition isNaN :: "jsnum \<Rightarrow> bool" where
  "isNaN x = (x = NaN)"

fun numNeg :: "jsnum \<Rightarrow> jsnum" where
  "numNeg (Fin a) = Fin (- a)"
| "numNeg PInf = NInf"
| "numNeg NInf = PInf"
| "numNeg NaN = NaN"

fun numAdd :: "jsnum \<Rightarrow> jsnum \<Rightarrow> jsnum" where
  "numAdd NaN _ = NaN"
| "numAdd _ NaN = NaN"
| "numAdd (Fin a) (Fin b) = Fin (a + b)"
| "numAdd PInf NInf = NaN"
| "numAdd NInf PInf = NaN"
| "numAdd PInf _ = PInf"
| "numAdd NInf _ = NInf"
| "numAdd _ PInf = PInf"
| "numAdd _ NInf = NInf"

definition numSub :: "jsnum \<Rightarrow> jsnum \<Rightarrow> jsnum" where
  "numSub a b = numAdd a (numNeg b)"

fun numSign :: "jsnum \<Rightarrow> int" where
  "numSign (Fin a) = (if a = 0 then 0 else if 0 < a then 1 else - 1)"
| "numSign PInf = 1"
| "numSign NInf = - 1"
| "numSign NaN = 0"

fun numMul :: "jsnum \<Rightarrow> jsnum \<Rightarrow> jsnum" where
  "numMul NaN _ = NaN"
| "numMul _ NaN = NaN"
| "numMul (Fin a) (Fin b) = Fin (a * b)"
| "numMul x y =
     (let s = numSign x * numSign y
      in if s = 0 then NaN else if 0 < s then PInf else NInf)"

fun numDiv :: "jsnum \<Rightarrow> jsnum \<Rightarrow> jsnum" where
  "numDiv NaN _ = NaN"
| "numDiv _ NaN = NaN"
| "numDiv (Fin a) (Fin b) =
     (if b = 0 then (if a = 0 then NaN else if 0 < a then PInf else NInf) else Fin (a / b))"
| "numDiv (Fin a) _ = Fin 0"
| "numDiv x (Fin b) = (if 0 \<le> numSign x * (if b < 0 then - 1 else 1) then PInf else NInf)"
| "numDiv _ _ = NaN"

text \<open>\<^verbatim>\<open>a < b\<close> on numbers: false as soon as one side is NaN.\<close>

fun numLess :: "jsnum \<Rightarrow> jsnum \<Rightarrow> bool" where
  "numLess NaN _ = False"
| "numLess _ NaN = False"
| "numLess (Fin a) (Fin b) = (a < b)"
| "numLess PInf _ = False"
| "numLess _ NInf = False"
| "numLess _ _ = True"

text \<open>\<^verbatim>\<open>a === b\<close> on numbers: NaN differs from everything, itself included.\<close>

definition numEq :: "jsnum \<Rightarrow> jsnum \<Rightarrow> bool" where
  "numEq a b = (a \<noteq> NaN \<and> a = b)"

subsection \<open>Characters and the regular expressions of the program\<close>

definition isDigit :: "char \<Rightarrow> bool" where
  "isDigit c = (48 \<le> (of_char c :: nat) \<and> (of_char c :: nat) \<le> 57)"

definition digitVal :: "char \<Rightarrow> nat" where
  "digitVal c = of_char c - 48"

definition digitsVal :: "string \<Rightarrow> nat" where
  "digitsVal s = foldl (\<lambda>v c. 10 * v + digitVal c) 0 s"

text \<open>White space as \<^verbatim>\<open>trim\<close> and the numeric parsers see it (the code units below 256).\<close>

definition isWhite :: "char \<Rightarrow> bool" where
  "isWhite c = (of_char c \<in> {9, 10, 11, 12, 13, 32, 160 :: nat})"

definition trimStart :: "string \<Rightarrow> string" where
  "trimStart s = dropWhile isWhite s"

definition trim :: "string \<Rightarrow> string" where
  "trim s = rev (dropWhile isWhite (rev (dropWhile isWhite s)))"

text \<open>The character class \<^verbatim>\<open>[0-9.-]\<close>.\<close>

definition isNumericChar :: "char \<Rightarrow> bool" where
  "isNumericChar c = (isDigit c \<or> c = CHR ''.'' \<or> c = CHR ''-'')"

text \<open>\<^verbatim>\<open>val.replace(/[^0-9.-]/g, '')\<close>\<close>

definition stripNonNumeric :: "string \<Rightarrow> string" where
  "stripNonNumeric s = filter isNumericChar s"

text \<open>\<^verbatim>\<open>/[^0-9.-]/.test(val)\<close>\<close>

definition hasNonNumeric :: "string \<Rightarrow> bool" where
  "hasNonNumeric s = list_ex (\<lambda>c. \<not> isNumericChar c) s"

text \<open>\<^verbatim>\<open>/\d/.test(s)\<close>\<close>

definition hasDigit :: "string \<Rightarrow> bool" where
  "hasDigit s = list_ex isDigit s"

text \<open>\<^verbatim>\<open>s.replace(/[\$,%]/g, '')\<close>\<close>

definition stripSymbols :: "string \<Rightarrow> string" where
  "stripSymbols s = filter (\<lambda>c. c \<noteq> CHR ''$'' \<and> c \<noteq> CHR '','' \<and> c \<noteq> CHR ''%'') s"

text \<open>\<^verbatim>\<open>s.replace(/,/g, '')\<close>\<close>

definition stripCommas :: "string \<Rightarrow> string" where
  "stripCommas s = filter (\<lambda>c. c \<noteq> CHR '','') s"

definition startsWith :: "string \<Rightarrow> string \<Rightarrow> bool" where
  "startsWith s p = (take (length p) s = p)"

fun includesStr :: "string \<Rightarrow> string \<Rightarrow> bool" where
  "includesStr [] t = (t = [])"
| "includesStr (c # s) t = (startsWith (c # s) t \<or> includesStr s t)"

text \<open>
  \<^verbatim>\<open>toLowerCase\<close> on the code points below 256, which are the characters of the model: the
  letters \<^verbatim>\<open>A\<close> to \<^verbatim>\<open>Z\<close> and the capitals U+00C0 to U+00DE other than the sign U+00D7.
\<close>

definition lowerChar :: "char \<Rightarrow> char" where
  "lowerChar c =
     (if (65 \<le> (of_char c :: nat) \<and> (of_char c :: nat) \<le> 90)
         \<or> (192 \<le> (of_char c :: nat) \<and> (of_char c :: nat) \<le> 222 \<and> (of_char c :: nat) \<noteq> 215)
      then char_of ((of_char c :: nat) + 32)
      else c)"

definition toLowerCase :: "string \<Rightarrow> string" where
  "toLowerCase s = map lowerChar s"

subsection \<open>Strings to numbers\<close>

definition pow10 :: "int \<Rightarrow> rat" where
  "pow10 e = (if 0 \<le> e then 10 ^ nat e else 1 / 10 ^ nat (- e))"

text \<open>
  An exponent part \<^verbatim>\<open>e\<close>, optional sign, at least one digit; without a digit the exponent
  is not part of the literal.
\<close>

definition scanExponent :: "string \<Rightarrow> int \<times> string" where
  "scanExponent s =
     (case s of
        [] \<Rightarrow> (0, s)
      | c # r \<Rightarrow>
          if c = CHR ''e'' \<or> c = CHR ''E'' then
            (let neg = (r \<noteq> [] \<and> hd r = CHR ''-'');
                 r' = (if r \<noteq> [] \<and> (hd r = CHR ''-'' \<or> hd r = CHR ''+'') then tl r else r);
                 ds = takeWhile isDigit r'
             in if ds = [] then (0, s)
                else ((if neg then - int (digitsVal ds) else int (digitsVal ds)),
                      dropWhile isDigit r'))
          else (0, s))"

text \<open>
  The longest unsigned decimal literal at the start of a string (digits, an optional
  fraction, an optional exponent; at least one digit), with the rest of the string.
\<close>

definition scanDecimal :: "string \<Rightarrow> (rat \<times> string) option" where
  "scanDecimal s =
     (let ip = takeWhile isDigit s;
          r1 = dropWhile isDigit s;
          hasDot = (r1 \<noteq> [] \<and> hd r1 = CHR ''.'');
          fp = (if hasDot then takeWhile isDigit (tl r1) else []);
          r2 = (if hasDot then dropWhile isDigit (tl r1) else r1)
      in if ip = [] \<and> fp = [] then None
         else (case scanExponent r2 of
                 (e, r3) \<Rightarrow>
                   Some (of_nat (digitsVal (ip @ fp)) * pow10 (e - int (length fp)), r3)))"

text \<open>\<^verbatim>\<open>parseFloat(s)\<close>: leading white space, a sign, then the longest numeric prefix.\<close>

definition parseFloat :: "string \<Rightarrow> jsnum" where
  "parseFloat s =
     (let t = trimStart s;
          neg = (t \<noteq> [] \<and> hd t = CHR ''-'');
          u = (if t \<noteq> [] \<and> (hd t = CHR ''-'' \<or> hd t = CHR ''+'') then tl t else t)
      in if startsWith u ''Infinity'' then (if neg then NInf else PInf)
         else (case scanDecimal u of
                 None \<Rightarrow> NaN
               | Some (q, r) \<Rightarrow> Fin (if neg then - q else q)))"

definition radixDigit :: "char \<Rightarrow> nat option" where
  "radixDigit c =
     (let n = (of_char c :: nat)
      in if 48 \<le> n \<and> n \<le> 57 then Some (n - 48)
         else if 97 \<le> n \<and> n \<le> 102 then Some (n - 87)
         else if 65 \<le> n \<and> n \<le> 70 then Some (n - 55)
         else None)"

definition radixVal :: "nat \<Rightarrow> string \<Rightarrow> jsnum" where
  "radixVal b s =
     (if s \<noteq> [] \<and> list_all (\<lambda>c. case radixDigit c of None \<Rightarrow> False | Some d \<Rightarrow> d < b) s
      then Fin (of_nat (foldl (\<lambda>v c. b * v + (case radixDigit c of None \<Rightarrow> 0 | Some d \<Rightarrow> d)) 0 s))
      else NaN)"

text \<open>
  \<^verbatim>\<open>Number(s)\<close> on a string: the whole trimmed string must be a numeric literal; the empty
  string is 0.
\<close>

definition stringToNumber :: "string \<Rightarrow> jsnum" where
  "stringToNumber s =
     (let t = trim s in
      if t = [] then Fin 0
      else if startsWith t ''0x'' \<or> startsWith t ''0X'' then radixVal 16 (drop 2 t)
      else if startsWith t ''0o'' \<or> startsWith t ''0O'' then radixVal 8 (drop 2 t)
      else if startsWith t ''0b'' \<or> startsWith t ''0B'' then radixVal 2 (drop 2 t)
      else
        (let neg = (hd t = CHR ''-'');
             u = (if hd t = CHR ''-'' \<or> hd t = CHR ''+'' then tl t else t)
         in if u = ''Infinity'' then (if neg then NInf else PInf)
            else (case scanDecimal u of
                    Some (q, []) \<Rightarrow> Fin (if neg then - q else q)
                  | _ \<Rightarrow> NaN)))"

subsection \<open>Numbers to strings\<close>

function intDigits :: "int \<Rightarrow> string" where
  "intDigits n =
     (if n < 10 then [''0123456789'' ! nat n]
      else intDigits (n div 10) @ [''0123456789'' ! nat (n mod 10)])"
  by pat_completeness auto
termination
  by (relation "measure nat") auto

text \<open>For \<open>0 < q\<close>, the \<open>n\<close> with \<open>10 ^ (n - 1) \<le> q < 10 ^ n\<close>.\<close>

definition decExponent :: "rat \<Rightarrow> int" where
  "decExponent q =
     (if 1 \<le> q then int (length (intDigits \<lfloor>q\<rfloor>))
      else 1 - int (length (intDigits (\<lceil>1 / q\<rceil> - 1))))"

text \<open>
  The significant decimal digits of the exact value \<open>0 < q\<close> (rounded to 17 digits,
  trailing zeros removed) and its decimal exponent. For an integer or a short decimal these
  are the digits \<^verbatim>\<open>String\<close> prints.
\<close>

definition sigDigits :: "rat \<Rightarrow> string \<times> int" where
  "sigDigits q =
     (let n = decExponent q;
          m = \<lfloor>q * pow10 (17 - n) + 1 / 2\<rfloor>;
          m' = (if 10 ^ 17 \<le> m then 10 ^ 16 else m);
          n' = (if 10 ^ 17 \<le> m then n + 1 else n)
      in (rev (dropWhile (\<lambda>c. c = CHR ''0'') (rev (intDigits m'))), n'))"

text \<open>The layout rules of \<^verbatim>\<open>Number.prototype.toString\<close> for digits \<open>ds\<close> and exponent \<open>n\<close>.\<close>

definition formatDigits :: "string \<Rightarrow> int \<Rightarrow> string" where
  "formatDigits ds n =
     (let k = int (length ds) in
      if k \<le> n \<and> n \<le> 21 then ds @ replicate (nat (n - k)) (CHR ''0'')
      else if 0 < n \<and> n \<le> 21 then take (nat n) ds @ ''.'' @ drop (nat n) ds
      else if - 6 < n \<and> n \<le> 0 then ''0.'' @ replicate (nat (- n)) (CHR ''0'') @ ds
      else (if k = 1 then ds else take 1 ds @ ''.'' @ drop 1 ds)
           @ ''e'' @ (if n - 1 < 0 then ''-'' else ''+'') @ intDigits \<bar>n - 1\<bar>)"

definition numToString :: "jsnum \<Rightarrow> string" where
  "numToString x =
     (case x of
        NaN \<Rightarrow> ''NaN''
      | PInf \<Rightarrow> ''Infinity''
      | NInf \<Rightarrow> ''-Infinity''
      | Fin q \<Rightarrow>
          if q = 0 then ''0''
          else if q < 0 then (case sigDigits (- q) of (ds, n) \<Rightarrow> ''-'' @ formatDigits ds n)
          else (case sigDigits q of (ds, n) \<Rightarrow> formatDigits ds n))"

text \<open>\<^verbatim>\<open>String(v)\<close>\<close>

definition toString :: "jsval \<Rightarrow> string" where
  "toString v =
     (case v of
        JNum x \<Rightarrow> numToString x
      | JStr s \<Rightarrow> s
      | JNull \<Rightarrow> ''null''
      | JUndef \<Rightarrow> ''undefined'')"

text \<open>Truthiness, as \<^verbatim>\<open>if (key)\<close> and \<^verbatim>\<open>key && ...\<close> test it.\<close>

definition truthy :: "jsval \<Rightarrow> bool" where
  "truthy v =
     (case v of
        JNum x \<Rightarrow> x \<noteq> NaN \<and> x \<noteq> Fin 0
      | JStr s \<Rightarrow> s \<noteq> []
      | JNull \<Rightarrow> False
      | JUndef \<Rightarrow> False)"

text \<open>Loose equality \<^verbatim>\<open>a == b\<close> on cell values.\<close>

fun looseEq :: "jsval \<Rightarrow> jsval \<Rightarrow> bool" where
  "looseEq (JNum a) (JNum b) = numEq a b"
| "looseEq (JStr a) (JStr b) = (a = b)"
| "looseEq (JNum a) (JStr b) = numEq a (stringToNumber b)"
| "looseEq (JStr a) (JNum b) = numEq (stringToNumber a) b"
| "looseEq JNull JNull = True"
| "looseEq JNull JUndef = True"
| "looseEq JUndef JNull = True"
| "looseEq JUndef JUndef = True"
| "looseEq _ _ = False"


section \<open>Objects, rows and the store\<close>

text \<open>
  An object is the list of its own properties in enumeration order: the keys that are
  array indices first, ascending, then the other keys in insertion order. This is the
  order of \<^verbatim>\<open>for (const key in obj)\<close> and of \<^verbatim>\<open>Object.entries\<close>.
\<close>

definition isArrayIndex :: "string \<Rightarrow> bool" where
  "isArrayIndex k =
     (k \<noteq> [] \<and> list_all isDigit k \<and> (k = ''0'' \<or> hd k \<noteq> CHR ''0'')
      \<and> int (digitsVal k) < 4294967295)"

fun insertIndexKey :: "nat \<Rightarrow> string \<Rightarrow> 'a \<Rightarrow> (string \<times> 'a) list \<Rightarrow> (string \<times> 'a) list" where
  "insertIndexKey i k v [] = [(k, v)]"
| "insertIndexKey i k v ((k', v') # r) =
     (if isArrayIndex k' \<and> digitsVal k' < i then (k', v') # insertIndexKey i k v r
      else (k, v) # (k', v') # r)"

text \<open>\<^verbatim>\<open>obj[k] = v\<close>\<close>

definition objSet :: "(string \<times> 'a) list \<Rightarrow> string \<Rightarrow> 'a \<Rightarrow> (string \<times> 'a) list" where
  "objSet obj k v =
     (if map_of obj k \<noteq> None then map (\<lambda>(k', v'). if k' = k then (k', v) else (k', v')) obj
      else if isArrayIndex k then insertIndexKey (digitsVal k) k v obj
      else obj @ [(k, v)])"

text \<open>\<^verbatim>\<open>delete obj[k]\<close>\<close>

definition objDelete :: "(string \<times> 'a) list \<Rightarrow> string \<Rightarrow> (string \<times> 'a) list" where
  "objDelete obj k = filter (\<lambda>(k', v'). k' \<noteq> k) obj"

type_synonym row = "(string \<times> jsval) list"

text \<open>\<^verbatim>\<open>row[column]\<close>: a missing property reads as \<^verbatim>\<open>undefined\<close>.\<close>

definition rowGet :: "row \<Rightarrow> string \<Rightarrow> jsval" where
  "rowGet r k = (case map_of r k of None \<Rightarrow> JUndef | Some v \<Rightarrow> v)"

text \<open>
  Datasets are mutable objects that the program shares and copies, so they live in a
  store: a list of cells, a reference being an index. A dataset object
  \<^verbatim>\<open>{data, meta}\<close> holds a reference to its array of rows and to its \<^verbatim>\<open>meta\<close> object;
  the array holds references to the row objects; \<^verbatim>\<open>meta\<close> holds a reference to the
  \<^verbatim>\<open>fields\<close> array and, once inference has run, to the \<^verbatim>\<open>inferredTypes\<close> object.
  Allocation appends a cell, so the references below the length of a store are the objects
  that exist in it.
\<close>

type_synonym addr = nat

datatype cell =
    CDataset addr addr
  | CRows "addr list"
  | CRow row
  | CMeta addr "addr option"
  | CFields "string list"
  | CTypes "(string \<times> string) list"

type_synonym heap = "cell list"

definition alloc :: "heap \<Rightarrow> cell \<Rightarrow> heap \<times> addr" where
  "alloc h c = (h @ [c], length h)"

definition lookup :: "heap \<Rightarrow> addr \<Rightarrow> cell option" where
  "lookup h a = (if a < length h then Some (h ! a) else None)"

text \<open>
  The readers below follow references. In the program a reference always leads to an
  object of the expected shape (\<open>wfDataset\<close> below); on any other store they read an
  empty array or object.
\<close>

definition dataRef :: "heap \<Rightarrow> addr \<Rightarrow> addr option" where
  "dataRef h ds = (case lookup h ds of Some (CDataset d m) \<Rightarrow> Some d | _ \<Rightarrow> None)"

definition metaRef :: "heap \<Rightarrow> addr \<Rightarrow> addr option" where
  "metaRef h ds = (case lookup h ds of Some (CDataset d m) \<Rightarrow> Some m | _ \<Rightarrow> None)"

definition rowRefsAt :: "heap \<Rightarrow> addr \<Rightarrow> addr list" where
  "rowRefsAt h d = (case lookup h d of Some (CRows rs) \<Rightarrow> rs | _ \<Rightarrow> [])"

text \<open>\<^verbatim>\<open>dataObject.data\<close>: the references of the rows, in order.\<close>

definition rowRefs :: "heap \<Rightarrow> addr \<Rightarrow> addr list" where
  "rowRefs h ds = (case dataRef h ds of None \<Rightarrow> [] | Some d \<Rightarrow> rowRefsAt h d)"

definition rowAt :: "heap \<Rightarrow> addr \<Rightarrow> row" where
  "rowAt h a = (case lookup h a of Some (CRow r) \<Rightarrow> r | _ \<Rightarrow> [])"

text \<open>The rows of a dataset, as values.\<close>

definition datasetRows :: "heap \<Rightarrow> addr \<Rightarrow> row list" where
  "datasetRows h ds = map (rowAt h) (rowRefs h ds)"

definition fieldsRef :: "heap \<Rightarrow> addr \<Rightarrow> addr option" where
  "fieldsRef h ds =
     (case metaRef h ds of
        None \<Rightarrow> None
      | Some m \<Rightarrow> (case lookup h m of Some (CMeta f t) \<Rightarrow> Some f | _ \<Rightarrow> None))"

definition typesRef :: "heap \<Rightarrow> addr \<Rightarrow> addr option" where
  "typesRef h ds =
     (case metaRef h ds of
        None \<Rightarrow> None
      | Some m \<Rightarrow> (case lookup h m of Some (CMeta f t) \<Rightarrow> t | _ \<Rightarrow> None))"

definition fieldsAt :: "heap \<Rightarrow> addr \<Rightarrow> string list" where
  "fieldsAt h f = (case lookup h f of Some (CFields fs) \<Rightarrow> fs | _ \<Rightarrow> [])"

text \<open>\<^verbatim>\<open>dataObject.meta.fields\<close>\<close>

definition datasetFields :: "heap \<Rightarrow> addr \<Rightarrow> string list" where
  "datasetFields h ds = (case fieldsRef h ds of None \<Rightarrow> [] | Some f \<Rightarrow> fieldsAt h f)"

definition typesAt :: "heap \<Rightarrow> addr \<Rightarrow> (string \<times> string) list" where
  "typesAt h t = (case lookup h t of Some (CTypes ts) \<Rightarrow> ts | _ \<Rightarrow> [])"

text \<open>\<^verbatim>\<open>dataObject.meta.inferredTypes\<close>, \<open>None\<close> when the property is absent.\<close>

definition datasetTypes :: "heap \<Rightarrow> addr \<Rightarrow> (string \<times> string) list option" where
  "datasetTypes h ds = (case typesRef h ds of None \<Rightarrow> None | Some t \<Rightarrow> Some (typesAt h t))"

text \<open>A reference to a dataset whose parts all exist and have the expected shape.\<close>

definition isRow :: "heap \<Rightarrow> addr \<Rightarrow> bool" where
  "isRow h a = (case lookup h a of Some (CRow r) \<Rightarrow> True | _ \<Rightarrow> False)"

definition isFields :: "heap \<Rightarrow> addr \<Rightarrow> bool" where
  "isFields h a = (case lookup h a of Some (CFields fs) \<Rightarrow> True | _ \<Rightarrow> False)"

definition isTypes :: "heap \<Rightarrow> addr \<Rightarrow> bool" where
  "isTypes h a = (case lookup h a of Some (CTypes ts) \<Rightarrow> True | _ \<Rightarrow> False)"

definition wfRows :: "heap \<Rightarrow> addr \<Rightarrow> bool" where
  "wfRows h d = (case lookup h d of Some (CRows rs) \<Rightarrow> list_all (isRow h) rs | _ \<Rightarrow> False)"

definition wfMeta :: "heap \<Rightarrow> addr \<Rightarrow> bool" where
  "wfMeta h m =
     (case lookup h m of
        Some (CMeta f t) \<Rightarrow> isFields h f \<and> (case t of None \<Rightarrow> True | Some ta \<Rightarrow> isTypes h ta)
      | _ \<Rightarrow> False)"

definition wfDataset :: "heap \<Rightarrow> addr \<Rightarrow> bool" where
  "wfDataset h ds =
     (case lookup h ds of Some (CDataset d m) \<Rightarrow> wfRows h d \<and> wfMeta h m | _ \<Rightarrow> False)"

section \<open>Transform engine\<close>

record condition =
  cColumn :: string
  cOperator :: string
  cValue :: jsval

text \<open>
  The inner function \<^verbatim>\<open>checkCondition\<close> of \<^verbatim>\<open>transformRemoveRows\<close>. The comparison value
  comes from the parsed configuration; when it is not a number it is parsed like the cell.
\<close>

definition checkCondition :: "row \<Rightarrow> condition \<Rightarrow> bool" where
  "checkCondition r c =
     (let rowValue = rowGet r (cColumn c) in
      if rowValue = JUndef then False
      else
        (let numericRowValue = parseFloat (stripCommas (toString rowValue));
             numericValue = (case cValue c of
                               JNum x \<Rightarrow> x
                             | v \<Rightarrow> parseFloat (stripCommas (toString v)))
         in if cOperator c = ''equals'' then looseEq rowValue (cValue c)
            else if cOperator c = ''not_equals'' then \<not> looseEq rowValue (cValue c)
            else if cOperator c = ''greater_than'' then
              \<not> isNaN numericRowValue \<and> \<not> isNaN numericValue \<and> numLess numericValue numericRowValue
            else if cOperator c = ''less_than'' then
              \<not> isNaN numericRowValue \<and> \<not> isNaN numericValue \<and> numLess numericRowValue numericValue
            else if cOperator c = ''contains'' then
              includesStr (toLowerCase (toString rowValue)) (toLowerCase (toString (cValue c)))
            else False))"

text \<open>\<^verbatim>\<open>conditions.every(cond => checkCondition(row, cond))\<close>\<close>

definition everyCondition :: "condition list \<Rightarrow> row \<Rightarrow> bool" where
  "everyCondition conditions r = list_all (checkCondition r) conditions"

text \<open>
  The assignment \<^verbatim>\<open>dataObject.data = ...\<close> of a newly built array: the array is allocated
  and the dataset object is changed in place to refer to it.
\<close>

definition assignData :: "heap \<Rightarrow> addr \<Rightarrow> addr list \<Rightarrow> heap" where
  "assignData h ds refs =
     (case lookup h ds of
        Some (CDataset d m) \<Rightarrow> (case alloc h (CRows refs) of (h1, d1) \<Rightarrow> h1[ds := CDataset d1 m])
      | _ \<Rightarrow> h)"

text \<open>A change of the array \<^verbatim>\<open>dataObject.meta.fields\<close> in place.\<close>

definition changeFields :: "heap \<Rightarrow> addr \<Rightarrow> (string list \<Rightarrow> string list) \<Rightarrow> heap" where
  "changeFields h ds g =
     (case fieldsRef h ds of
        Some f \<Rightarrow> h[f := CFields (g (fieldsAt h f))]
      | None \<Rightarrow> h)"

text \<open>A change of one row object in place.\<close>

definition changeRow :: "(row \<Rightarrow> row) \<Rightarrow> heap \<Rightarrow> addr \<Rightarrow> heap" where
  "changeRow g h a = (case lookup h a of Some (CRow r) \<Rightarrow> h[a := CRow (g r)] | _ \<Rightarrow> h)"

text \<open>
  \<^verbatim>\<open>transformRemoveRows\<close>: \<^verbatim>\<open>filter\<close> builds a new array of the kept row references, and the
  assignment stores it in the \<^verbatim>\<open>data\<close> property of the dataset object it was given.
\<close>

definition transformRemoveRows :: "heap \<Rightarrow> addr \<Rightarrow> condition list \<Rightarrow> heap" where
  "transformRemoveRows h ds conditions =
     assignData h ds (filter (\<lambda>a. \<not> everyCondition conditions (rowAt h a)) (rowRefs h ds))"

text \<open>
  The declarative JSON payloads of the AI collaborator: the parameters of a transformation,
  of a plan step, and of a chart (the \<^verbatim>\<open>params\<close> of a \<^verbatim>\<open>visualize\<close> step are a chart
  configuration). One record holds the properties that the program reads. A property of type
  option may be missing; a missing \<^verbatim>\<open>aggregation\<close> is the string \<^verbatim>\<open>undefined\<close>, which is what
  every use in the program makes of it.
\<close>

record params =
  conditions :: "condition list option"
  newColumn :: string
  column1 :: string
  operator :: string
  column2 :: string
  oldColumn :: string
  groupBy :: string
  aggregation :: string
  valueColumn :: "string option"
  column :: string
  order :: string
  count :: "int option"
  chartType :: string
  xAxisColumn :: "string option"
  yAxisColumn :: "string option"
  categoryColumn :: "string option"

record config = params +
  action :: string
  explanation :: "string option"

text \<open>The value of the new cell in \<^verbatim>\<open>transformCreateColumn\<close>.\<close>

definition createColumnValue :: "string \<Rightarrow> string \<Rightarrow> string \<Rightarrow> row \<Rightarrow> jsval" where
  "createColumnValue col1 opr col2 r =
     (let val1 = parseFloat (stripCommas (toString (rowGet r col1)));
          val2 = parseFloat (stripCommas (toString (rowGet r col2)))
      in if \<not> isNaN val1 \<and> \<not> isNaN val2 then
           (if opr = ''add'' then JNum (numAdd val1 val2)
            else if opr = ''subtract'' then JNum (numSub val1 val2)
            else if opr = ''multiply'' then JNum (numMul val1 val2)
            else if opr = ''divide'' then (if val2 \<noteq> Fin 0 then JNum (numDiv val1 val2) else JNull)
            else JNull)
         else JNull)"

text \<open>Allocation of a list of cells, with the references they get.\<close>

definition allocAll :: "heap \<Rightarrow> cell list \<Rightarrow> heap \<times> addr list" where
  "allocAll h cs = (h @ cs, [length h ..< length h + length cs])"

text \<open>
  The construction of a new dataset object from given rows, field names and, optionally,
  inferred types: new row objects, a new array of them, a new \<^verbatim>\<open>fields\<close> array, a new
  \<^verbatim>\<open>inferredTypes\<close> object, a new \<^verbatim>\<open>meta\<close> object and the new dataset object.
\<close>

definition allocDataset ::
  "heap \<Rightarrow> row list \<Rightarrow> string list \<Rightarrow> (string \<times> string) list option \<Rightarrow> heap \<times> addr" where
  "allocDataset h rows fieldNames types =
     (let (h1, refs) = allocAll h (map CRow rows);
          (h2, d) = alloc h1 (CRows refs);
          (h3, f) = alloc h2 (CFields fieldNames);
          (h4, t) = (case types of
                       None \<Rightarrow> (h3, None)
                     | Some ts \<Rightarrow> (case alloc h3 (CTypes ts) of (h', a) \<Rightarrow> (h', Some a)));
          (h5, m) = alloc h4 (CMeta f t)
      in alloc h5 (CDataset d m))"

text \<open>
  \<^verbatim>\<open>transformCreateColumn\<close>: \<^verbatim>\<open>map\<close> builds a new array of new row objects (the spread copies
  each row), the assignment stores the array in the dataset object, and \<^verbatim>\<open>push\<close> changes the
  \<^verbatim>\<open>fields\<close> array of the dataset in place.
\<close>

definition transformCreateColumn :: "heap \<Rightarrow> addr \<Rightarrow> 'a params_scheme \<Rightarrow> heap" where
  "transformCreateColumn h ds p =
     (let newRows = map (\<lambda>a. objSet (rowAt h a) (newColumn p)
                                (createColumnValue (column1 p) (operator p) (column2 p) (rowAt h a)))
                        (rowRefs h ds);
          (h1, refs) = allocAll h (map CRow newRows)
      in changeFields (assignData h1 ds refs) ds (\<lambda>fs. fs @ [newColumn p]))"

text \<open>The body of the \<^verbatim>\<open>map\<close> callback of \<^verbatim>\<open>transformRenameColumn\<close>, on one row object.\<close>

definition renameInRow :: "string \<Rightarrow> string \<Rightarrow> row \<Rightarrow> row" where
  "renameInRow old new r =
     (case map_of r old of
        Some v \<Rightarrow> objDelete (objSet r new v) old
      | None \<Rightarrow> r)"

text \<open>\<^verbatim>\<open>fields[fields.indexOf(oldColumn)] = newColumn\<close>, when the index is not -1.\<close>

fun replaceFirst :: "string \<Rightarrow> string \<Rightarrow> string list \<Rightarrow> string list" where
  "replaceFirst old new [] = []"
| "replaceFirst old new (f # fs) = (if f = old then new # fs else f # replaceFirst old new fs)"

text \<open>
  \<^verbatim>\<open>transformRenameColumn\<close>: the callback changes every row object in place, one after the
  other; \<^verbatim>\<open>map\<close> returns a new array of the same references; the \<^verbatim>\<open>fields\<close> array is changed in
  place.
\<close>

definition transformRenameColumn :: "heap \<Rightarrow> addr \<Rightarrow> 'a params_scheme \<Rightarrow> heap" where
  "transformRenameColumn h ds p =
     (let refs = rowRefs h ds;
          h1 = foldl (changeRow (renameInRow (oldColumn p) (newColumn p))) h refs
      in changeFields (assignData h1 ds refs) ds (replaceFirst (oldColumn p) (newColumn p)))"

subsection \<open>Deep copies\<close>

text \<open>
  \<^verbatim>\<open>JSON.parse(JSON.stringify(x))\<close>: every object reachable from the dataset is built anew.
  A property whose value is \<^verbatim>\<open>undefined\<close> is left out, and a number that is not finite
  becomes \<^verbatim>\<open>null\<close>.
\<close>

definition jsonRow :: "row \<Rightarrow> row" where
  "jsonRow r =
     map (\<lambda>(k, v). (k, case v of JNum (Fin q) \<Rightarrow> JNum (Fin q) | JNum _ \<Rightarrow> JNull | _ \<Rightarrow> v))
         (filter (\<lambda>(k, v). v \<noteq> JUndef) r)"

definition deepCopy :: "heap \<Rightarrow> addr \<Rightarrow> heap \<times> addr" where
  "deepCopy h ds =
     allocDataset h (map jsonRow (datasetRows h ds)) (datasetFields h ds) (datasetTypes h ds)"

subsection \<open>applyTransformation\<close>

text \<open>The double and the single quotation mark, for the messages.\<close>

definition dq :: string where
  "dq = [CHR 0x22]"

definition sq :: string where
  "sq = [CHR 0x27]"

datatype transformResult =
    Success string addr
  | Failure string

text \<open>
  The message of the \<^verbatim>\<open>TypeError\<close> that the \<^verbatim>\<open>catch\<close> clause reports when a property of
  \<^verbatim>\<open>undefined\<close> is read; its wording belongs to the engine.
\<close>

definition typeErrorMessage :: "string \<Rightarrow> string" where
  "typeErrorMessage prop = ''Cannot read properties of undefined (reading '' @ sq @ prop @ sq @ '')''"

text \<open>The message of the \<^verbatim>\<open>TypeError\<close> for an assignment to a property of \<^verbatim>\<open>undefined\<close>.\<close>

definition typeErrorSetMessage :: "string \<Rightarrow> string" where
  "typeErrorSetMessage prop = ''Cannot set properties of undefined (setting '' @ sq @ prop @ sq @ '')''"

text \<open>
  \<^verbatim>\<open>applyTransformation(config, sourceData)\<close>. All work is done on a deep copy of
  \<^verbatim>\<open>sourceData\<close>. The \<^verbatim>\<open>try\<close> block can fail in two places: \<^verbatim>\<open>conditions.every\<close> when
  \<^verbatim>\<open>conditions\<close> is missing, and the update of \<^verbatim>\<open>meta.inferredTypes\<close> when the dataset has no
  such object; the copy has then been changed and is dropped.
\<close>

definition applyTransformation :: "heap \<Rightarrow> config \<Rightarrow> addr \<Rightarrow> heap \<times> transformResult" where
  "applyTransformation h cfg sourceData =
     (let (h0, newDataObject) = deepCopy h sourceData;
          expl = (case explanation cfg of
                    None \<Rightarrow> ''Transformation applied.''
                  | Some e \<Rightarrow> if e = [] then ''Transformation applied.'' else e)
      in
      if action cfg = ''remove_rows'' then
        (let initialRowCount = length (rowRefs h0 newDataObject) in
         case conditions cfg of
           None \<Rightarrow> (h0, Failure (typeErrorMessage ''every''))
         | Some cs \<Rightarrow>
             (let h1 = transformRemoveRows h0 newDataObject cs;
                  rowsRemoved = int initialRowCount - int (length (rowRefs h1 newDataObject))
              in (h1, Success (''Removed '' @ numToString (Fin (of_int rowsRemoved)) @ '' row(s). '' @ expl)
                        newDataObject)))
      else if action cfg = ''create_column'' then
        (if newColumn cfg \<in> set (datasetFields h0 newDataObject) then
           (h0, Failure (''Column '' @ dq @ newColumn cfg @ dq @ '' already exists.''))
         else
           (let h1 = transformCreateColumn h0 newDataObject cfg in
            case typesRef h1 newDataObject of
              None \<Rightarrow> (h1, Failure (typeErrorSetMessage (newColumn cfg)))
            | Some t \<Rightarrow>
                (h1[t := CTypes (objSet (typesAt h1 t) (newColumn cfg) ''numerical'')],
                 Success (''Created new column '' @ sq @ newColumn cfg @ sq @ ''. '' @ expl)
                   newDataObject)))
      else if action cfg = ''rename_column'' then
        (if oldColumn cfg \<notin> set (datasetFields h0 newDataObject) then
           (h0, Failure (''Column to rename '' @ dq @ oldColumn cfg @ dq @ '' does not exist.''))
         else if newColumn cfg \<in> set (datasetFields h0 newDataObject) then
           (h0, Failure (''A column named '' @ dq @ newColumn cfg @ dq @ '' already exists.''))
         else
           (let h1 = transformRenameColumn h0 newDataObject cfg in
            case typesRef h1 newDataObject of
              None \<Rightarrow> (h1, Failure (typeErrorMessage (oldColumn cfg)))
            | Some t \<Rightarrow>
                (let ts = typesAt h1 t;
                     ts1 = (case map_of ts (oldColumn cfg) of
                              Some ty \<Rightarrow> objSet ts (newColumn cfg) ty
                            | None \<Rightarrow> ts)
                 in (h1[t := CTypes (objDelete ts1 (oldColumn cfg))],
                     Success (''Renamed column '' @ dq @ oldColumn cfg @ dq @ '' to '' @ dq @ newColumn cfg
                              @ dq @ ''. '' @ expl) newDataObject))))
      else (h0, Failure (''Unsupported transformation action: '' @ action cfg)))"

section \<open>Data normalizer\<close>

text \<open>
  The three counters of the sampling loop of \<^verbatim>\<open>cleanAndNormalizeData\<close> for one field:
  \<^verbatim>\<open>numericLikeCount\<close>, \<^verbatim>\<open>validValueCount\<close> and \<^verbatim>\<open>needsCleaning\<close>, after one more row.
\<close>

definition sampleStep :: "string \<Rightarrow> nat \<times> nat \<times> bool \<Rightarrow> row \<Rightarrow> nat \<times> nat \<times> bool" where
  "sampleStep field acc r =
     (case acc of (numericLikeCount, validValueCount, needsCleaning) \<Rightarrow>
        (let val = rowGet r field in
         if val = JNull \<or> val = JUndef \<or> trim (toString val) = [] then acc
         else
           (case val of
              JNum x \<Rightarrow> (numericLikeCount + 1, validValueCount + 1, needsCleaning)
            | JStr s \<Rightarrow>
                if \<not> isNaN (stringToNumber s) \<and> trim s \<noteq> [] then
                  (numericLikeCount + 1, validValueCount + 1, needsCleaning)
                else
                  (let cleaned = stripNonNumeric s in
                   if cleaned \<noteq> [] \<and> \<not> isNaN (stringToNumber cleaned) \<and> hasDigit cleaned then
                     (numericLikeCount + 1, validValueCount + 1,
                      (if hasNonNumeric s then True else needsCleaning))
                   else (numericLikeCount, validValueCount + 1, needsCleaning))
            | _ \<Rightarrow> (numericLikeCount, validValueCount + 1, needsCleaning))))"

definition sampleCounts :: "row list \<Rightarrow> string \<Rightarrow> nat \<times> nat \<times> bool" where
  "sampleCounts sample field = foldl (sampleStep field) (0, 0, False) sample"

text \<open>
  The test that marks a field for cleaning. The quotient of the two counters (both at
  most 100) is compared with \<^verbatim>\<open>CLEANING_THRESHOLD = 0.8\<close>; on such operands the comparison
  of doubles and the comparison of the exact quotients agree.
\<close>

definition markedForCleaning :: "row list \<Rightarrow> string \<Rightarrow> bool" where
  "markedForCleaning sample field =
     (case sampleCounts sample field of (numericLikeCount, validValueCount, needsCleaning) \<Rightarrow>
        0 < validValueCount
        \<and> (8 / 10 :: rat) \<le> of_nat numericLikeCount / of_nat validValueCount
        \<and> needsCleaning)"

text \<open>The body of the inner \<^verbatim>\<open>forEach\<close> of the rewriting pass: one field of one row.\<close>

definition cleanCell :: "row \<Rightarrow> string \<Rightarrow> row" where
  "cleanCell r field =
     (case rowGet r field of
        JStr s \<Rightarrow>
          (let cleaned = stripNonNumeric s in
           if cleaned \<noteq> [] \<and> \<not> isNaN (stringToNumber cleaned)
           then objSet r field (JNum (stringToNumber cleaned))
           else r)
      | _ \<Rightarrow> r)"

text \<open>
  \<^verbatim>\<open>cleanAndNormalizeData(data, fields)\<close> changes the rows in place and returns nothing;
  the model returns the rows as they are afterwards.
\<close>

definition cleanAndNormalizeData :: "row list \<Rightarrow> string list \<Rightarrow> row list" where
  "cleanAndNormalizeData data fieldNames =
     (if data = [] then data
      else
        (let sample = take 100 data;
             fieldsToClean = filter (markedForCleaning sample) fieldNames
         in if fieldsToClean \<noteq> [] then map (\<lambda>r. foldl cleanCell r fieldsToClean) data
            else data))"

section \<open>Type inferencer\<close>

text \<open>
  The flags \<^verbatim>\<open>isNumeric\<close>, \<^verbatim>\<open>isTemporal\<close> and the set \<^verbatim>\<open>uniqueValues\<close> of the sampling loop of
  \<^verbatim>\<open>inferColumnTypes\<close>, after one more row. \<^verbatim>\<open>Date.parse\<close> depends on the engine for
  everything but the ISO format, so it is a parameter \<open>dateParse\<close> of the model.
\<close>

definition inferStep ::
  "(string \<Rightarrow> jsnum) \<Rightarrow> string \<Rightarrow> bool \<times> bool \<times> jsval list \<Rightarrow> row \<Rightarrow> bool \<times> bool \<times> jsval list" where
  "inferStep dateParse field acc r =
     (case acc of (isNumeric, isTemporal, uniqueValues) \<Rightarrow>
        (let val = rowGet r field in
         if val = JNull \<or> val = JUndef \<or> val = JStr [] then acc
         else
           (let uniqueValues' = (if val \<in> set uniqueValues then uniqueValues else uniqueValues @ [val]);
                isNumeric' =
                  (if isNumeric then
                     (let cleanedValue = trim (stripSymbols (toString val)) in
                      \<not> (cleanedValue = [] \<or> isNaN (stringToNumber cleanedValue)))
                   else False);
                isTemporal' =
                  (if isTemporal then
                     \<not> ((case val of JNum x \<Rightarrow> True | _ \<Rightarrow> False) \<or> isNaN (dateParse (toString val)))
                   else False)
            in (isNumeric', isTemporal', uniqueValues'))))"

definition inferType :: "(string \<Rightarrow> jsnum) \<Rightarrow> row list \<Rightarrow> string \<Rightarrow> string" where
  "inferType dateParse sample field =
     (case foldl (inferStep dateParse field) (True, True, []) sample of
        (isNumeric, isTemporal, uniqueValues) \<Rightarrow>
          if isNumeric then ''numerical''
          else if isTemporal then ''temporal''
          else if (of_nat (length uniqueValues) / of_nat (length sample) :: rat) < 5 / 10
                  \<and> length uniqueValues \<le> 50 then ''categorical''
          else ''string'')"

text \<open>\<^verbatim>\<open>inferColumnTypes(data, fields)\<close>: the object \<^verbatim>\<open>types\<close>.\<close>

definition inferColumnTypes ::
  "(string \<Rightarrow> jsnum) \<Rightarrow> row list \<Rightarrow> string list \<Rightarrow> (string \<times> string) list" where
  "inferColumnTypes dateParse data fieldNames =
     (let sample = take 100 data in
      if sample = [] then []
      else foldl (\<lambda>types field. objSet types field (inferType dateParse sample field)) [] fieldNames)"

section \<open>Column resolver\<close>

definition findMatchingColumn :: "string option \<Rightarrow> string list \<Rightarrow> string option" where
  "findMatchingColumn aiColumnName actualColumns =
     (case aiColumnName of
        None \<Rightarrow> None
      | Some n \<Rightarrow>
          if n = [] then None
          else (case find (\<lambda>col. toLowerCase (trim col) = toLowerCase (trim n)) actualColumns of
                  None \<Rightarrow> None
                | Some c \<Rightarrow> if c = [] then None else Some c))"

section \<open>Plan executor: aggregate, sort, limit\<close>

text \<open>
  \<^verbatim>\<open>ToNumber\<close>, as the operators \<^verbatim>\<open>+=\<close>, \<^verbatim>\<open>>\<close> and \<^verbatim>\<open>/\<close> apply it to a property value.
\<close>

definition toNumber :: "jsval \<Rightarrow> jsnum" where
  "toNumber v =
     (case v of JNum x \<Rightarrow> x | JStr s \<Rightarrow> stringToNumber s | JNull \<Rightarrow> Fin 0 | JUndef \<Rightarrow> NaN)"

text \<open>
  The object \<^verbatim>\<open>groups\<close> starts as \<^verbatim>\<open>{}\<close> and so inherits the properties of
  \<^verbatim>\<open>Object.prototype\<close>: eleven functions, and the accessor \<^verbatim>\<open>__proto__\<close>, which reads as
  \<^verbatim>\<open>Object.prototype\<close> itself and ignores the assignment of that same object. A group key
  with one of these names does not get a group object of its own: \<^verbatim>\<open>groups[key]\<close> is the
  built-in object, and \<^verbatim>\<open>sum\<close> and \<^verbatim>\<open>count\<close> are read from it and written to it.
\<close>

definition objectPrototypeFunctions :: "string list" where
  "objectPrototypeFunctions =
     [''constructor'', ''__defineGetter__'', ''__defineSetter__'', ''hasOwnProperty'',
      ''__lookupGetter__'', ''__lookupSetter__'', ''isPrototypeOf'', ''propertyIsEnumerable'',
      ''toString'', ''valueOf'', ''toLocaleString'']"

text \<open>
  What \<^verbatim>\<open>groups[key]\<close> refers to: a group object \<^verbatim>\<open>{sum, count}\<close> that the loop made, or the
  built-in object that \<^verbatim>\<open>Object.prototype\<close> holds under a name (under \<^verbatim>\<open>__proto__\<close>:
  \<^verbatim>\<open>Object.prototype\<close> itself).
\<close>

datatype groupRef = OwnGroup jsnum nat | BuiltinRef string

text \<open>
  The numeric properties that the program has added to built-in objects, per object (named
  as in \<^verbatim>\<open>BuiltinRef\<close>) and in the order of their creation. The engine starts with none.
\<close>

type_synonym builtins = "(string \<times> (string \<times> jsnum) list) list"

definition addedTo :: "builtins \<Rightarrow> string \<Rightarrow> (string \<times> jsnum) list" where
  "addedTo b n = (case map_of b n of None \<Rightarrow> [] | Some ps \<Rightarrow> ps)"

text \<open>
  \<^verbatim>\<open>obj.sum\<close> and \<^verbatim>\<open>obj.count\<close> for a built-in object: its own property, or else the one it
  inherits from \<^verbatim>\<open>Object.prototype\<close> (every built-in object does, and so does a number), or
  else \<^verbatim>\<open>undefined\<close>.
\<close>

definition builtinGet :: "builtins \<Rightarrow> string \<Rightarrow> string \<Rightarrow> jsval" where
  "builtinGet b n prop =
     (case map_of (addedTo b n) prop of
        Some x \<Rightarrow> JNum x
      | None \<Rightarrow>
          (case map_of (addedTo b ''__proto__'') prop of Some x \<Rightarrow> JNum x | None \<Rightarrow> JUndef))"

text \<open>\<^verbatim>\<open>obj[prop] += x\<close> for a built-in object: \<^verbatim>\<open>undefined + x\<close> is NaN.\<close>

definition builtinAdd :: "builtins \<Rightarrow> string \<Rightarrow> string \<Rightarrow> jsnum \<Rightarrow> builtins" where
  "builtinAdd b n prop x =
     objSet b n (objSet (addedTo b n) prop (numAdd (toNumber (builtinGet b n prop)) x))"

text \<open>
  The first loop of \<^verbatim>\<open>executeAggregate\<close>: the own properties of \<^verbatim>\<open>groups\<close> and the additions to
  built-in objects after one more row. A missing \<^verbatim>\<open>valueColumn\<close> reads the property named
  \<^verbatim>\<open>undefined\<close>. The assignment \<^verbatim>\<open>groups[key] = groups[key] || {sum: 0, count: 0}\<close> makes an
  own property of every key but \<^verbatim>\<open>__proto__\<close>; an inherited \<^verbatim>\<open>sum\<close> or \<^verbatim>\<open>count\<close> is NaN, hence
  falsy, and gives way to a new group object.
\<close>

definition aggregateStep ::
  "string \<Rightarrow> string \<Rightarrow> string option \<Rightarrow> (string \<times> groupRef) list \<times> builtins \<Rightarrow> row
   \<Rightarrow> (string \<times> groupRef) list \<times> builtins" where
  "aggregateStep gb agg vc st r =
     (case st of (groups, b) \<Rightarrow>
        (let key = rowGet r gb in
         if key = JUndef \<or> key = JNull then st
         else
           (let k = toString key;
                g = (case map_of groups k of
                       Some g \<Rightarrow> g
                     | None \<Rightarrow>
                         if k = ''__proto__'' \<or> k \<in> set objectPrototypeFunctions then BuiltinRef k
                         else OwnGroup (Fin 0) 0);
                value = parseFloat (stripCommas (toString
                          (rowGet r (case vc of None \<Rightarrow> ''undefined'' | Some c \<Rightarrow> c))));
                adds = (agg \<noteq> ''count'' \<and> \<not> isNaN value)
            in case g of
                 OwnGroup s c \<Rightarrow>
                   (objSet groups k (OwnGroup (if adds then numAdd s value else s) (c + 1)), b)
               | BuiltinRef n \<Rightarrow>
                   (if k = ''__proto__'' then groups else objSet groups k (BuiltinRef n),
                    builtinAdd (if adds then builtinAdd b n ''sum'' value else b) n ''count'' (Fin 1)))))"

definition aggregateGroups ::
  "string \<Rightarrow> string \<Rightarrow> string option \<Rightarrow> row list \<Rightarrow> (string \<times> groupRef) list \<times> builtins" where
  "aggregateGroups gb agg vc rows = foldl (aggregateStep gb agg vc) ([], []) rows"

text \<open>
  The keys that \<^verbatim>\<open>for (const key in groups)\<close> visits: the own properties, then the enumerable
  properties of \<^verbatim>\<open>Object.prototype\<close> that no own property hides, which are the ones the first
  loop added.
\<close>

definition groupKeys :: "(string \<times> groupRef) list \<Rightarrow> builtins \<Rightarrow> string list" where
  "groupKeys groups b =
     map fst groups @ filter (\<lambda>n. n \<notin> set (map fst groups)) (map fst (addedTo b ''__proto__''))"

text \<open>
  \<^verbatim>\<open>groups[key]\<close> in the second loop. Under an inherited key it is the number NaN, whose
  properties \<^verbatim>\<open>sum\<close> and \<^verbatim>\<open>count\<close> are those of \<^verbatim>\<open>Object.prototype\<close>.
\<close>

definition groupAt :: "(string \<times> groupRef) list \<Rightarrow> string \<Rightarrow> groupRef" where
  "groupAt groups k = (case map_of groups k of Some g \<Rightarrow> g | None \<Rightarrow> BuiltinRef ''__proto__'')"

text \<open>The value of one group in the second loop.\<close>

definition groupValue :: "string \<Rightarrow> builtins \<Rightarrow> groupRef \<Rightarrow> jsval" where
  "groupValue agg b g =
     (let sumV = (case g of OwnGroup s c \<Rightarrow> JNum s | BuiltinRef n \<Rightarrow> builtinGet b n ''sum'');
          countV = (case g of
                      OwnGroup s c \<Rightarrow> JNum (Fin (of_nat c))
                    | BuiltinRef n \<Rightarrow> builtinGet b n ''count'')
      in if agg = ''sum'' then sumV
         else if agg = ''average'' then
           (if numLess (Fin 0) (toNumber countV) then JNum (numDiv (toNumber sumV) (toNumber countV))
            else JNum (Fin 0))
         else countV)"

definition aggregateColumnName :: "string \<Rightarrow> string option \<Rightarrow> string" where
  "aggregateColumnName agg vc =
     agg @ ''_'' @ (case vc of None \<Rightarrow> ''count'' | Some c \<Rightarrow> if c = [] then ''count'' else c)"

text \<open>The array \<^verbatim>\<open>aggregatedData\<close>: one object literal per visited key.\<close>

definition aggregatedData :: "'a params_scheme \<Rightarrow> row list \<Rightarrow> row list" where
  "aggregatedData p rows =
     (case aggregateGroups (groupBy p) (aggregation p) (valueColumn p) rows of
        (groups, b) \<Rightarrow>
          map (\<lambda>k. objSet (objSet [] (groupBy p) (JStr k))
                      (aggregateColumnName (aggregation p) (valueColumn p))
                      (groupValue (aggregation p) b (groupAt groups k)))
              (groupKeys groups b))"

text \<open>
  The properties that a call of \<^verbatim>\<open>executeAggregate\<close> leaves on built-in objects. They stay
  there when the call is over.
\<close>

definition aggregateWrites :: "'a params_scheme \<Rightarrow> row list \<Rightarrow> builtins" where
  "aggregateWrites p rows = snd (aggregateGroups (groupBy p) (aggregation p) (valueColumn p) rows)"

text \<open>
  \<^verbatim>\<open>executeAggregate\<close> reads the rows of its argument and returns a new dataset object
  \<^verbatim>\<open>{data, meta: {fields}}\<close>, without \<^verbatim>\<open>inferredTypes\<close>. The store holds the datasets of the
  program and not the built-in objects of the engine: what the call writes to those is
  \<^verbatim>\<open>aggregateWrites\<close>, and the model describes a call that starts with none.
\<close>

definition executeAggregate :: "heap \<Rightarrow> addr \<Rightarrow> 'a params_scheme \<Rightarrow> heap \<times> addr" where
  "executeAggregate h ds p =
     allocDataset h (aggregatedData p (datasetRows h ds))
       [groupBy p, aggregateColumnName (aggregation p) (valueColumn p)] None"

text \<open>
  \<^verbatim>\<open>Array.prototype.sort\<close> is stable. It is modelled by insertion from the right: an element
  moves behind a later one only when the comparator puts it strictly after (a result
  greater than zero; NaN counts as zero). For a consistent comparator this is the result of
  every stable sort; for an inconsistent one the language leaves the order to the engine,
  and the model has the order of this insertion.
\<close>

fun insertBy :: "('a \<Rightarrow> 'a \<Rightarrow> jsnum) \<Rightarrow> 'a \<Rightarrow> 'a list \<Rightarrow> 'a list" where
  "insertBy cmp x [] = [x]"
| "insertBy cmp x (y # ys) =
     (if numLess (Fin 0) (cmp x y) then y # insertBy cmp x ys else x # y # ys)"

definition sortBy :: "('a \<Rightarrow> 'a \<Rightarrow> jsnum) \<Rightarrow> 'a list \<Rightarrow> 'a list" where
  "sortBy cmp xs = foldr (insertBy cmp) xs []"

text \<open>
  The comparator of \<^verbatim>\<open>executeSort\<close>. \<^verbatim>\<open>localeCompare\<close> depends on the locale of the engine and
  is a parameter of the model.
\<close>

definition sortComparator ::
  "(string \<Rightarrow> string \<Rightarrow> int) \<Rightarrow> string \<Rightarrow> string \<Rightarrow> row \<Rightarrow> row \<Rightarrow> jsnum" where
  "sortComparator localeCompare col ord a b =
     (let valA = rowGet a col;
          valB = rowGet b col;
          numA = parseFloat (toString valA);
          numB = parseFloat (toString valB);
          comparison = (if \<not> isNaN numA \<and> \<not> isNaN numB then numSub numA numB
                        else Fin (of_int (localeCompare (toString valA) (toString valB))))
      in if ord = ''descending'' then numNeg comparison else comparison)"

text \<open>\<^verbatim>\<open>executeSort\<close> sorts the array of the dataset in place.\<close>

definition executeSort ::
  "(string \<Rightarrow> string \<Rightarrow> int) \<Rightarrow> heap \<Rightarrow> addr \<Rightarrow> 'a params_scheme \<Rightarrow> heap" where
  "executeSort localeCompare h ds p =
     (case dataRef h ds of
        Some d \<Rightarrow>
          h[d := CRows (sortBy (\<lambda>a b. sortComparator localeCompare (column p) (order p)
                                        (rowAt h a) (rowAt h b))
                               (rowRefsAt h d))]
      | None \<Rightarrow> h)"

text \<open>\<^verbatim>\<open>xs.slice(0, n)\<close>: a negative end counts from the end of the array.\<close>

definition sliceTo :: "'a list \<Rightarrow> int \<Rightarrow> 'a list" where
  "sliceTo xs n = (if 0 \<le> n then take (nat n) xs else take (nat (int (length xs) + n)) xs)"

text \<open>
  \<^verbatim>\<open>executeLimit\<close>: the array is replaced by a slice of it. Without a \<^verbatim>\<open>count\<close> the end of the
  slice is \<^verbatim>\<open>undefined\<close> and the slice holds every row.
\<close>

definition executeLimit :: "heap \<Rightarrow> addr \<Rightarrow> 'a params_scheme \<Rightarrow> heap" where
  "executeLimit h ds p =
     assignData h ds
       (case count p of None \<Rightarrow> rowRefs h ds | Some n \<Rightarrow> sliceTo (rowRefs h ds) n)"

section \<open>Chart data preparer\<close>

text \<open>\<^verbatim>\<open>(acc[key] || 0)\<close>: a missing entry, zero and NaN all read as zero.\<close>

definition orZero :: "jsnum option \<Rightarrow> jsnum" where
  "orZero x = (case x of None \<Rightarrow> Fin 0 | Some v \<Rightarrow> if v = NaN \<or> v = Fin 0 then Fin 0 else v)"

text \<open>
  The three aggregation loops of \<^verbatim>\<open>prepareChartData\<close>, one row at a time. The accumulators
  are read as dictionaries of their own properties. That is what the code does for every
  label but the twelve names of the properties of \<^verbatim>\<open>Object.prototype\<close>, for which
  \<^verbatim>\<open>acc[key]\<close> is the inherited object; the values of such labels are outside this model.
\<close>

definition averageStep ::
  "string \<Rightarrow> string \<Rightarrow> (string \<times> jsnum) list \<times> (string \<times> jsnum) list \<Rightarrow> row
     \<Rightarrow> (string \<times> jsnum) list \<times> (string \<times> jsnum) list" where
  "averageStep labelCol valueCol acc r =
     (case acc of (sumsObj, countsObj) \<Rightarrow>
        (let key = rowGet r labelCol;
             value = parseFloat (stripCommas (toString (rowGet r valueCol)))
         in if truthy key \<and> \<not> isNaN value then
              (objSet sumsObj (toString key) (numAdd (orZero (map_of sumsObj (toString key))) value),
               objSet countsObj (toString key) (numAdd (orZero (map_of countsObj (toString key))) (Fin 1)))
            else acc))"

definition sumStep :: "string \<Rightarrow> string \<Rightarrow> (string \<times> jsnum) list \<Rightarrow> row \<Rightarrow> (string \<times> jsnum) list" where
  "sumStep labelCol valueCol acc r =
     (let key = rowGet r labelCol;
          value = parseFloat (stripCommas (toString (rowGet r valueCol)))
      in if truthy key \<and> \<not> isNaN value then
           objSet acc (toString key) (numAdd (orZero (map_of acc (toString key))) value)
         else acc)"

definition countStep :: "string \<Rightarrow> (string \<times> jsnum) list \<Rightarrow> row \<Rightarrow> (string \<times> jsnum) list" where
  "countStep labelCol acc r =
     (let key = rowGet r labelCol
      in if truthy key then
           objSet acc (toString key) (numAdd (orZero (map_of acc (toString key))) (Fin 1))
         else acc)"

text \<open>The object \<^verbatim>\<open>aggregated\<close>, by the three branches on \<^verbatim>\<open>aggregation\<close> and \<^verbatim>\<open>valueCol\<close>.\<close>

definition chartAggregate ::
  "string \<Rightarrow> string \<Rightarrow> string option \<Rightarrow> row list \<Rightarrow> (string \<times> jsnum) list" where
  "chartAggregate agg labelCol valueCol data =
     (case valueCol of
        Some vc \<Rightarrow>
          if agg = ''average'' then
            (case foldl (averageStep labelCol vc) ([], []) data of (sumsObj, countsObj) \<Rightarrow>
               foldl (\<lambda>aggregated (key, s).
                        if numLess (Fin 0) (case map_of countsObj key of None \<Rightarrow> NaN | Some c \<Rightarrow> c)
                        then objSet aggregated key
                               (numDiv s (case map_of countsObj key of None \<Rightarrow> NaN | Some c \<Rightarrow> c))
                        else aggregated)
                     [] sumsObj)
          else if agg = ''sum'' then foldl (sumStep labelCol vc) [] data
          else foldl (countStep labelCol) [] data
      | None \<Rightarrow> foldl (countStep labelCol) [] data)"

text \<open>
  The comparators of the presentation sort. \<^verbatim>\<open>new Date(a)\<close> is \<open>dateParse\<close>; the natural
  \<^verbatim>\<open>localeCompare\<close> (numeric, base sensitivity) is the parameter \<open>naturalCompare\<close>.
\<close>

definition byValueDescending :: "string \<times> jsnum \<Rightarrow> string \<times> jsnum \<Rightarrow> jsnum" where
  "byValueDescending x y = numSub (snd y) (snd x)"

definition byLabel ::
  "(string \<Rightarrow> jsnum) \<Rightarrow> (string \<Rightarrow> string \<Rightarrow> int) \<Rightarrow> string \<times> jsnum \<Rightarrow> string \<times> jsnum \<Rightarrow> jsnum" where
  "byLabel dateParse naturalCompare x y =
     (let dateA = dateParse (fst x); dateB = dateParse (fst y)
      in if \<not> isNaN dateA \<and> \<not> isNaN dateB then numSub dateA dateB
         else Fin (of_int (naturalCompare (fst x) (fst y))))"

definition isCategoricalChart :: "string \<Rightarrow> bool" where
  "isCategoricalChart ct = (ct \<in> set [''bar'', ''pie'', ''donut''])"

definition sortItems ::
  "(string \<Rightarrow> jsnum) \<Rightarrow> (string \<Rightarrow> string \<Rightarrow> int) \<Rightarrow> string \<Rightarrow> (string \<times> jsnum) list
     \<Rightarrow> (string \<times> jsnum) list" where
  "sortItems dateParse naturalCompare ct allItems =
     (if isCategoricalChart ct then sortBy byValueDescending allItems
      else if ct \<in> set [''line'', ''area''] then sortBy (byLabel dateParse naturalCompare) allItems
      else allItems)"

text \<open>The grouping into \<^verbatim>\<open>Other\<close>, with \<^verbatim>\<open>MAX_CATEGORIES_TO_DISPLAY = 20\<close>.\<close>

definition collapseItems :: "string \<Rightarrow> (string \<times> jsnum) list \<Rightarrow> string list \<times> jsnum list" where
  "collapseItems ct allItems =
     (if isCategoricalChart ct \<and> 20 < length allItems then
        (let topItems = take (20 - 1) allItems;
             otherItems = drop (20 - 1) allItems;
             otherSum = foldl (\<lambda>total item. numAdd total (snd item)) (Fin 0) otherItems
         in (map fst topItems @ [''Other''], map snd topItems @ [otherSum]))
      else (map fst allItems, map snd allItems))"

fun joinWith :: "string \<Rightarrow> string list \<Rightarrow> string" where
  "joinWith sep [] = []"
| "joinWith sep [x] = x"
| "joinWith sep (x # y # r) = x @ sep @ joinWith sep (y # r)"

datatype chartData =
    Series "string list" "jsnum list" string
  | Points "(jsnum \<times> jsnum) list" string

definition nameOrUndefined :: "string option \<Rightarrow> string" where
  "nameOrUndefined n = (case n of None \<Rightarrow> ''undefined'' | Some x \<Rightarrow> x)"

text \<open>
  The part of \<^verbatim>\<open>prepareChartData\<close> after the columns are resolved, for the chart types with
  labels: aggregation, presentation order, grouping into \<^verbatim>\<open>Other\<close>, and the titles.
\<close>

definition chartSeries ::
  "(string \<Rightarrow> jsnum) \<Rightarrow> (string \<Rightarrow> string \<Rightarrow> int) \<Rightarrow> string \<Rightarrow> string \<Rightarrow> string \<Rightarrow> string option
     \<Rightarrow> row list \<Rightarrow> chartData \<times> string option \<times> string option" where
  "chartSeries dateParse naturalCompare ct agg labelCol valueCol data =
     (let aggregated = chartAggregate agg labelCol valueCol data;
          yTitle = (case valueCol of
                      Some vc \<Rightarrow> if agg = ''average'' then ''Average of '' @ vc
                                 else if agg = ''sum'' then ''Total '' @ vc
                                 else ''Count''
                    | None \<Rightarrow> ''Count'');
          allItems = sortItems dateParse naturalCompare ct aggregated;
          datasetLabel = (case valueCol of
                            Some vc \<Rightarrow> if agg = ''average'' then ''Average of '' @ vc
                                       else ''Total '' @ vc
                          | None \<Rightarrow> ''Count'')
      in (Series (fst (collapseItems ct allItems)) (snd (collapseItems ct allItems)) datasetLabel,
          Some labelCol, Some yTitle))"

definition invalidColumnMessage :: "string \<Rightarrow> string option \<Rightarrow> string list \<Rightarrow> string" where
  "invalidColumnMessage what aiCol actualColumns =
     ''Invalid column name for chart '' @ what @ ''. Could not find a match for '' @ dq
     @ nameOrUndefined aiCol @ dq @ ''. Available columns are: ['' @ joinWith '', '' actualColumns
     @ '']''"

text \<open>The points of a scatter chart: the rows whose two coordinates both parse.\<close>

definition scatterPoints :: "string \<Rightarrow> string \<Rightarrow> row list \<Rightarrow> (jsnum \<times> jsnum) list" where
  "scatterPoints mx my data =
     filter (\<lambda>p. \<not> isNaN (fst p) \<and> \<not> isNaN (snd p))
       (map (\<lambda>r. (parseFloat (stripCommas (toString (rowGet r mx))),
                  parseFloat (stripCommas (toString (rowGet r my))))) data)"

text \<open>
  \<^verbatim>\<open>prepareChartData(config)\<close> reads \<^verbatim>\<open>data\<close> and \<^verbatim>\<open>meta.fields\<close> of the active view; here they
  are arguments. The result is the thrown error message, \<^verbatim>\<open>null\<close> (\<open>Inr None\<close>), or the
  chart data with the two axis titles; the colours and other style properties are left out.
\<close>

definition prepareChartData ::
  "(string \<Rightarrow> jsnum) \<Rightarrow> (string \<Rightarrow> string \<Rightarrow> int) \<Rightarrow> 'a params_scheme \<Rightarrow> row list \<Rightarrow> string list
     \<Rightarrow> string + (chartData \<times> string option \<times> string option) option" where
  "prepareChartData dateParse naturalCompare cfg data actualColumns =
     (if chartType cfg \<in> set [''bar'', ''line'', ''area'', ''pie'', ''donut''] then
        (let pieLike = (chartType cfg \<in> set [''pie'', ''donut'']);
             aiLabelCol = (if pieLike then categoryColumn cfg else xAxisColumn cfg);
             aiValueCol = (if pieLike then valueColumn cfg else yAxisColumn cfg);
             labelCol = findMatchingColumn aiLabelCol actualColumns;
             valueCol = (if aggregation cfg = ''count'' then None
                         else findMatchingColumn aiValueCol actualColumns)
         in case labelCol of
              None \<Rightarrow> Inl (invalidColumnMessage ''labels'' aiLabelCol actualColumns)
            | Some lc \<Rightarrow>
                if aggregation cfg \<noteq> ''count'' \<and> valueCol = None then
                  Inl (invalidColumnMessage ''values'' aiValueCol actualColumns)
                else
                  Inr (Some (chartSeries dateParse naturalCompare (chartType cfg) (aggregation cfg)
                               lc valueCol data)))
      else if chartType cfg = ''scatter'' then
        (let matchedXAxisColumn = findMatchingColumn (xAxisColumn cfg) actualColumns;
             matchedYAxisColumn = findMatchingColumn (yAxisColumn cfg) actualColumns
         in case (matchedXAxisColumn, matchedYAxisColumn) of
              (Some mx, Some my) \<Rightarrow>
                Inr (Some (Points (scatterPoints mx my data) (my @ '' vs '' @ mx), Some mx, Some my))
            | _ \<Rightarrow>
                Inl (''Invalid column names for scatter plot. ''
                     @ (if matchedXAxisColumn = None
                        then ''Could not find a match for column '' @ dq
                             @ nameOrUndefined (xAxisColumn cfg) @ dq @ ''. '' else [])
                     @ (if matchedYAxisColumn = None
                        then ''Could not find a match for column '' @ dq
                             @ nameOrUndefined (yAxisColumn cfg) @ dq @ ''. '' else [])
                     @ ''Available columns are: ['' @ joinWith '', '' actualColumns @ '']''))
      else Inr None)"

section \<open>Session state and filter engine\<close>

text \<open>
  A filter \<^verbatim>\<open>{column, value}\<close>. Filters are only created by a click on a chart label, and
  the labels of a chart are property names of \<^verbatim>\<open>aggregated\<close> or the string \<^verbatim>\<open>Other\<close>, so the
  value is a string.
\<close>

record filterEntry =
  fColumn :: string
  fValue :: string

text \<open>The global variables of the application, with the store of the objects they refer to.\<close>

record session =
  store :: heap
  originalData :: "addr option"
  activeData :: "addr option"
  activeFilters :: "filterEntry list"
  stagedFilters :: "filterEntry list"
  isFilteredState :: bool

definition initialSession :: session where
  "initialSession =
     \<lparr>store = [], originalData = None, activeData = None, activeFilters = [],
      stagedFilters = [], isFilteredState = False\<rparr>"

text \<open>
  \<^verbatim>\<open>handleSuccessfulParse(results, fileName)\<close>: the parser has built the rows and the field
  list; the rows are cleaned in place, the inferred types are stored in \<^verbatim>\<open>results.meta\<close>, and
  both globals are set to the one object \<^verbatim>\<open>results\<close>.
\<close>

definition handleSuccessfulParse ::
  "(string \<Rightarrow> jsnum) \<Rightarrow> session \<Rightarrow> row list \<Rightarrow> string list \<Rightarrow> session" where
  "handleSuccessfulParse dateParse s data fieldNames =
     (let cleaned = cleanAndNormalizeData data fieldNames;
          (h, results) = allocDataset (store s) cleaned fieldNames
                           (Some (inferColumnTypes dateParse cleaned fieldNames))
      in s\<lparr>store := h, originalData := Some results, activeData := Some results\<rparr>)"

text \<open>One \<^verbatim>\<open>filteredRows = filteredRows.filter(...)\<close>: a new array of the matching references.\<close>

definition filterStep :: "heap \<times> addr \<Rightarrow> filterEntry \<Rightarrow> heap \<times> addr" where
  "filterStep acc f =
     (case acc of (h, d) \<Rightarrow>
        alloc h (CRows (filter (\<lambda>a. toString (rowGet (rowAt h a) (fColumn f)) = fValue f)
                               (rowRefsAt h d))))"

text \<open>
  \<^verbatim>\<open>applyFilters()\<close>. With filters, the active view is a new object
  \<^verbatim>\<open>{...originalData, data: filteredRows}\<close>: the spread copies the reference to \<^verbatim>\<open>meta\<close>. When
  there is no master dataset the first property access throws and nothing is assigned.
\<close>

definition applyFilters :: "session \<Rightarrow> session" where
  "applyFilters s =
     (if activeFilters s \<noteq> [] then
        (case originalData s of
           Some od \<Rightarrow>
             (case lookup (store s) od of
                Some (CDataset d m) \<Rightarrow>
                  (let (h1, filteredRows) = foldl filterStep (store s, d) (activeFilters s);
                       (h2, a) = alloc h1 (CDataset filteredRows m)
                   in s\<lparr>store := h2, activeData := Some a, isFilteredState := True\<rparr>)
              | _ \<Rightarrow> s)
         | None \<Rightarrow> s)
      else s\<lparr>activeData := originalData s, isFilteredState := False\<rparr>)"

definition handleClearFilters :: "session \<Rightarrow> session" where
  "handleClearFilters s = applyFilters (s\<lparr>activeFilters := []\<rparr>)"

text \<open>\<^verbatim>\<open>xs.findIndex(p)\<close>: the first index whose element satisfies \<open>p\<close>, or -1.\<close>

fun findIndex :: "('a \<Rightarrow> bool) \<Rightarrow> 'a list \<Rightarrow> int" where
  "findIndex p [] = - 1"
| "findIndex p (x # xs) =
     (if p x then 0 else (let i = findIndex p xs in if i < 0 then - 1 else i + 1))"

definition sameFilter :: "filterEntry \<Rightarrow> filterEntry \<Rightarrow> bool" where
  "sameFilter f g = (fColumn f = fColumn g \<and> fValue f = fValue g)"

text \<open>The duplicate removal of \<^verbatim>\<open>handleApplyStagedFilters\<close>.\<close>

definition removeDuplicates :: "filterEntry list \<Rightarrow> filterEntry list" where
  "removeDuplicates self =
     map snd (filter (\<lambda>(index, flt). int index = findIndex (\<lambda>f. sameFilter f flt) self)
                     (enumerate 0 self))"

definition handleApplyStagedFilters :: "session \<Rightarrow> session" where
  "handleApplyStagedFilters s =
     applyFilters
       (s\<lparr>activeFilters := removeDuplicates (activeFilters s @ stagedFilters s),
          stagedFilters := []\<rparr>)"

definition handleCancelStaging :: "session \<Rightarrow> session" where
  "handleCancelStaging s = s\<lparr>stagedFilters := []\<rparr>"

text \<open>The click handler of a staged filter's remove button: \<^verbatim>\<open>stagedFilters.splice(i, 1)\<close>.\<close>

definition removeStagedFilter :: "session \<Rightarrow> nat \<Rightarrow> session" where
  "removeStagedFilter s i =
     s\<lparr>stagedFilters := take i (stagedFilters s) @ drop (Suc i) (stagedFilters s)\<rparr>"

text \<open>
  The double-click branch of the \<^verbatim>\<open>onClick\<close> handler that \<^verbatim>\<open>renderVisualization\<close> installs:
  \<open>labelColName\<close> is the label column of the chart's configuration and \<open>clickedLabel\<close>
  the label of the clicked element.
\<close>

definition stageFilter :: "session \<Rightarrow> string option \<Rightarrow> string \<Rightarrow> session" where
  "stageFilter s labelColName clickedLabel =
     (case activeData s of
        None \<Rightarrow> s
      | Some ad \<Rightarrow>
          (case findMatchingColumn labelColName (datasetFields (store s) ad) of
             Some filterColumn \<Rightarrow>
               if clickedLabel \<noteq> [] then
                 (let newFilter = \<lparr>fColumn = filterColumn, fValue = clickedLabel\<rparr>;
                      isDuplicate = list_ex (\<lambda>f. sameFilter f newFilter) (stagedFilters s);
                      isAlreadyActive = list_ex (\<lambda>f. sameFilter f newFilter) (activeFilters s)
                  in if \<not> isDuplicate \<and> \<not> isAlreadyActive
                     then s\<lparr>stagedFilters := stagedFilters s @ [newFilter]\<rparr>
                     else s)
               else s
           | None \<Rightarrow> s))"

definition clearData :: "session \<Rightarrow> session" where
  "clearData s =
     s\<lparr>originalData := None, activeData := None, activeFilters := [], stagedFilters := [],
       isFilteredState := False\<rparr>"

text \<open>
  \<^verbatim>\<open>handleTransformation\<close>, from the parsed configuration on. Without a master dataset
  every branch of \<^verbatim>\<open>applyTransformation\<close> fails and no global changes.
\<close>

definition handleTransformation :: "session \<Rightarrow> config \<Rightarrow> session" where
  "handleTransformation s cfg =
     (if action cfg = ''error'' then s
      else
        (case originalData s of
           None \<Rightarrow> s
         | Some od \<Rightarrow>
             (case applyTransformation (store s) cfg od of
                (h, Success msg newData) \<Rightarrow>
                  s\<lparr>store := h, originalData := Some newData, activeData := Some newData,
                    activeFilters := [],
                    isFilteredState := (if activeFilters s \<noteq> [] then False else isFilteredState s)\<rparr>
              | (h, Failure msg) \<Rightarrow> s\<lparr>store := h\<rparr>)))"

section \<open>Plan executor\<close>

record step =
  stepAction :: string
  stepExplanation :: string
  stepParams :: params

datatype planError = UnsupportedAction string | TypeError

text \<open>
  \<^verbatim>\<open>executeDataStep\<close>: the new store and the dataset that the step returns, or the error it
  throws.
\<close>

definition executeDataStep ::
  "(string \<Rightarrow> string \<Rightarrow> int) \<Rightarrow> heap \<Rightarrow> addr \<Rightarrow> step \<Rightarrow> planError + heap \<times> addr" where
  "executeDataStep localeCompare h dataObject st =
     (let p = stepParams st in
      if stepAction st = ''create_column'' then Inr (transformCreateColumn h dataObject p, dataObject)
      else if stepAction st = ''remove_rows'' then
        (case conditions p of
           None \<Rightarrow> Inl TypeError
         | Some cs \<Rightarrow> Inr (transformRemoveRows h dataObject cs, dataObject))
      else if stepAction st = ''rename_column'' then Inr (transformRenameColumn h dataObject p, dataObject)
      else if stepAction st = ''aggregate'' then Inr (executeAggregate h dataObject p)
      else if stepAction st = ''sort'' then Inr (executeSort localeCompare h dataObject p, dataObject)
      else if stepAction st = ''limit'' then Inr (executeLimit h dataObject p, dataObject)
      else Inl (UnsupportedAction (stepAction st)))"

text \<open>
  The outcome of a plan: the precomputed labels and values handed to the chart, the end
  of the plan without a chart, or the error that aborts it.
\<close>

datatype planOutcome =
    Visualized "jsval list" "jsval list"
  | PlanEnded
  | PlanFailed planError

text \<open>The loop of \<^verbatim>\<open>executeAnalysisPlan\<close> over the steps, on the scratch dataset \<^verbatim>\<open>tempData\<close>.\<close>

fun runPlan ::
  "(string \<Rightarrow> string \<Rightarrow> int) \<Rightarrow> heap \<Rightarrow> addr \<Rightarrow> step list \<Rightarrow> heap \<times> planOutcome" where
  "runPlan localeCompare h tempData [] = (h, PlanEnded)"
| "runPlan localeCompare h tempData (st # rest) =
     (if stepAction st = ''visualize'' then
        (h, Visualized
              (map (\<lambda>r. rowGet r (nameOrUndefined (xAxisColumn (stepParams st)))) (datasetRows h tempData))
              (map (\<lambda>r. rowGet r (nameOrUndefined (yAxisColumn (stepParams st)))) (datasetRows h tempData)))
      else
        (case executeDataStep localeCompare h tempData st of
           Inl e \<Rightarrow> (h, PlanFailed e)
         | Inr (h', tempData') \<Rightarrow> runPlan localeCompare h' tempData' rest))"

definition knownAction :: "string \<Rightarrow> bool" where
  "knownAction a =
     (a \<in> set [''visualize'', ''create_column'', ''remove_rows'', ''rename_column'', ''aggregate'',
               ''sort'', ''limit''])"

text \<open>
  \<^verbatim>\<open>executeAnalysisPlan(plan)\<close>: the plan runs on a deep copy of the active view. Without
  an active view the copy is \<^verbatim>\<open>null\<close> and the first step throws.
\<close>

definition executeAnalysisPlan ::
  "(string \<Rightarrow> string \<Rightarrow> int) \<Rightarrow> session \<Rightarrow> step list \<Rightarrow> session \<times> planOutcome" where
  "executeAnalysisPlan localeCompare s plan =
     (case activeData s of
        None \<Rightarrow>
          (case plan of
             [] \<Rightarrow> (s, PlanEnded)
           | st # rest \<Rightarrow>
               (s, PlanFailed (if knownAction (stepAction st) then TypeError
                               else UnsupportedAction (stepAction st))))
      | Some ad \<Rightarrow>
          (let (h0, tempData) = deepCopy (store s) ad;
               (h1, outcome) = runPlan localeCompare h0 tempData plan
           in (s\<lparr>store := h1\<rparr>, outcome)))"

text \<open>\<^verbatim>\<open>handleComplexAnalysis\<close>, from the parsed plan on.\<close>

definition handleComplexAnalysis ::
  "(string \<Rightarrow> string \<Rightarrow> int) \<Rightarrow> session \<Rightarrow> step list \<Rightarrow> session" where
  "handleComplexAnalysis localeCompare s plan =
     (if plan \<noteq> [] \<and> stepAction (hd plan) = ''error'' then s
      else fst (executeAnalysisPlan localeCompare s plan))"

subsection \<open>The events of a session\<close>

datatype event =
    FileParsed "row list" "string list"
  | ClearData
  | ChartDoubleClick "string option" string
  | RemoveStaged nat
  | ApplyStaged
  | CancelStaging
  | ClearFilters
  | Transformation config
  | ComplexAnalysis "step list"

fun handleEvent ::
  "(string \<Rightarrow> jsnum) \<Rightarrow> (string \<Rightarrow> string \<Rightarrow> int) \<Rightarrow> session \<Rightarrow> event \<Rightarrow> session" where
  "handleEvent dateParse localeCompare s (FileParsed data fieldNames) =
     handleSuccessfulParse dateParse s data fieldNames"
| "handleEvent dateParse localeCompare s ClearData = clearData s"
| "handleEvent dateParse localeCompare s (ChartDoubleClick labelColName clickedLabel) =
     stageFilter s labelColName clickedLabel"
| "handleEvent dateParse localeCompare s (RemoveStaged i) = removeStagedFilter s i"
| "handleEvent dateParse localeCompare s ApplyStaged = handleApplyStagedFilters s"
| "handleEvent dateParse localeCompare s CancelStaging = handleCancelStaging s"
| "handleEvent dateParse localeCompare s ClearFilters = handleClearFilters s"
| "handleEvent dateParse localeCompare s (Transformation cfg) = handleTransformation s cfg"
| "handleEvent dateParse localeCompare s (ComplexAnalysis plan) =
     handleComplexAnalysis localeCompare s plan"

text \<open>The state of the session after a sequence of events, from the state at page load.\<close>

definition runEvents ::
  "(string \<Rightarrow> jsnum) \<Rightarrow> (string \<Rightarrow> string \<Rightarrow> int) \<Rightarrow> event list \<Rightarrow> session" where
  "runEvents dateParse localeCompare evs =
     foldl (handleEvent dateParse localeCompare) initialSession evs"

text \<open>
  The reading of \<^emph>\<open>numeric parse with thousands-separator stripping\<close>: the value is turned
  into a string, the commas are removed, and the longest numeric prefix is parsed. A
  comparison value that already is a number is used as it is.
\<close>

definition numericParse :: "jsval \<Rightarrow> jsnum" where
  "numericParse v = parseFloat (stripCommas (toString v))"

definition numericOperand :: "jsval \<Rightarrow> jsnum" where
  "numericOperand v = (case v of JNum x \<Rightarrow> x | _ \<Rightarrow> numericParse v)"

section \<open>Ownership of objects\<close>

text \<open>The references of all the objects that make up a dataset.\<close>

definition datasetCells :: "heap \<Rightarrow> addr \<Rightarrow> addr list" where
  "datasetCells h ds =
     (case lookup h ds of
        Some (CDataset d m) \<Rightarrow>
          ds # d # rowRefsAt h d
          @ m # (case lookup h m of
                   Some (CMeta f t) \<Rightarrow> f # (case t of None \<Rightarrow> [] | Some ta \<Rightarrow> [ta])
                 | _ \<Rightarrow> [])
      | _ \<Rightarrow> [ds])"

text \<open>
  A well-formed dataset all of whose objects were allocated when the store already had
  \<open>k\<close> cells: it shares no object with anything that existed then.
\<close>

definition ownedFrom :: "nat \<Rightarrow> heap \<Rightarrow> addr \<Rightarrow> bool" where
  "ownedFrom k h ds = (wfDataset h ds \<and> list_all (\<lambda>a. k \<le> a) (datasetCells h ds))"

text \<open>The store \<open>h'\<close> still holds every object of \<open>h\<close>, unchanged.\<close>

definition extends :: "heap \<Rightarrow> heap \<Rightarrow> bool" where
  "extends h h' = (take (length h) h' = h)"

text \<open>\<^verbatim>\<open>result.success\<close> and \<^verbatim>\<open>result.newData\<close>.\<close>

definition newDataOf :: "transformResult \<Rightarrow> addr option" where
  "newDataOf r = (case r of Success msg nd \<Rightarrow> Some nd | Failure msg \<Rightarrow> None)"

text \<open>The lists of staged and of active filters are free of repetitions.\<close>

definition filtersDistinct :: "session \<Rightarrow> bool" where
  "filtersDistinct s = (distinct (stagedFilters s) \<and> distinct (activeFilters s))"

text \<open>
  A payload with no property set, and a configuration with no property set; the examples
  below set the properties that they use.
\<close>

definition emptyParams :: params where
  "emptyParams =
     \<lparr>conditions = None, newColumn = [], column1 = [], operator = [], column2 = [],
      oldColumn = [], groupBy = [], aggregation = ''undefined'', valueColumn = None, column = [],
      order = [], count = None, chartType = [], xAxisColumn = None, yAxisColumn = None,
      categoryColumn = None\<rparr>"

definition emptyConfig :: config where
  "emptyConfig =
     \<lparr>conditions = None, newColumn = [], column1 = [], operator = [], column2 = [],
      oldColumn = [], groupBy = [], aggregation = ''undefined'', valueColumn = None, column = [],
      order = [], count = None, chartType = [], xAxisColumn = None, yAxisColumn = None,
      categoryColumn = None, action = [], explanation = None\<rparr>"

text \<open>The filtered-state flag is set only while some filter is active.\<close>

definition filterFlagConsistent :: "session \<Rightarrow> bool" where
  "filterFlagConsistent s = (isFilteredState s \<longrightarrow> activeFilters s \<noteq> [])"

text \<open>
  No row has a group key that names a property of \<^verbatim>\<open>Object.prototype\<close>: \<^verbatim>\<open>groups\<close> then works
  as a dictionary of its own properties.
\<close>

definition noInheritedKey :: "string \<Rightarrow> row list \<Rightarrow> bool" where
  "noInheritedKey gb rows =
     list_all (\<lambda>r. toString (rowGet r gb) \<notin> set (''__proto__'' # objectPrototypeFunctions)) rows"

text \<open>
  Some \<^verbatim>\<open>aggregate\<close> step of the plan, run on the scratch dataset, writes to a built-in
  object.
\<close>

fun planWrites :: "(string \<Rightarrow> string \<Rightarrow> int) \<Rightarrow> heap \<Rightarrow> addr \<Rightarrow> step list \<Rightarrow> bool" where
  "planWrites localeCompare h tempData [] = False"
| "planWrites localeCompare h tempData (st # rest) =
     (if stepAction st = ''visualize'' then False
      else if stepAction st = ''aggregate''
              \<and> aggregateWrites (stepParams st) (datasetRows h tempData) \<noteq> [] then True
      else
        (case executeDataStep localeCompare h tempData st of
           Inl e \<Rightarrow> False
         | Inr (h', tempData') \<Rightarrow> planWrites localeCompare h' tempData' rest))"

definition analysisWrites :: "(string \<Rightarrow> string \<Rightarrow> int) \<Rightarrow> session \<Rightarrow> step list \<Rightarrow> bool" where
  "analysisWrites localeCompare s plan =
     (case activeData s of
        None \<Rightarrow> False
      | Some ad \<Rightarrow>
          (case deepCopy (store s) ad of (h0, tempData) \<Rightarrow> planWrites localeCompare h0 tempData plan))"

text \<open>
  The reading of the aggregation step: the rows of the group with the printed key \<open>k\<close>
  (rows whose \<^verbatim>\<open>groupBy\<close> cell is \<^verbatim>\<open>null\<close> or absent belong to no group), the number of a value
  cell, and the sum of the cells of a group that parse, in row order.
\<close>

definition rowsOfGroup :: "string \<Rightarrow> string \<Rightarrow> row list \<Rightarrow> row list" where
  "rowsOfGroup gb k rows =
     filter (\<lambda>r. rowGet r gb \<noteq> JUndef \<and> rowGet r gb \<noteq> JNull \<and> toString (rowGet r gb) = k) rows"

definition cellNumber :: "string option \<Rightarrow> row \<Rightarrow> jsnum" where
  "cellNumber vc r =
     parseFloat (stripCommas (toString (rowGet r (case vc of None \<Rightarrow> ''undefined'' | Some c \<Rightarrow> c))))"

definition sumOfParseable :: "string option \<Rightarrow> row list \<Rightarrow> jsnum" where
  "sumOfParseable vc rows = foldl numAdd (Fin 0) (filter (\<lambda>v. \<not> isNaN v) (map (cellNumber vc) rows))"

text \<open>
  The number that the specification gives a group: the sum of its cells that parse, their
  sum over the number of its rows (0 for no rows), or the number of its rows.
\<close>

definition groupNumber :: "string \<Rightarrow> string option \<Rightarrow> row list \<Rightarrow> jsnum" where
  "groupNumber agg vc grp =
     (if agg = ''sum'' then sumOfParseable vc grp
      else if agg = ''average'' then
        (if 0 < length grp then numDiv (sumOfParseable vc grp) (Fin (of_nat (length grp)))
         else Fin 0)
      else Fin (of_nat (length grp)))"

text \<open>The printed label-column values of the rows whose label-column value is truthy.\<close>

definition truthyLabels :: "string \<Rightarrow> row list \<Rightarrow> string set" where
  "truthyLabels lc data
     = set (map (\<lambda>r. toString (rowGet r lc)) (filter (\<lambda>r. truthy (rowGet r lc)) data))"

text \<open>\<^verbatim>\<open>a >= b\<close> on numbers: false as soon as one side is NaN.\<close>

definition numGeq :: "jsnum \<Rightarrow> jsnum \<Rightarrow> bool" where
  "numGeq a b = (\<not> isNaN a \<and> \<not> isNaN b \<and> \<not> numLess a b)"

text \<open>
  The kept groups are the top ones by value: the value of every kept group is at least the
  value of every folded group.
\<close>

definition keptAreTop :: "(string \<times> jsnum) list \<Rightarrow> (string \<times> jsnum) list \<Rightarrow> bool" where
  "keptAreTop kept folded = list_all (\<lambda>a. list_all (\<lambda>b. numGeq (snd a) (snd b)) folded) kept"



section \<open>The normalizer's rule, as the specification words it\<close>

text \<open>
  The specification counts, per field, the non-empty sampled values and those of them that
  are numeric-like, and asks for a sampled value with a stripped character. These
  definitions follow that wording, for comparison with the counters of the sampling loop.
\<close>

text \<open>A cell that the sampling loop skips: \<^verbatim>\<open>null\<close>, \<^verbatim>\<open>undefined\<close>, or blank once printed.\<close>

definition isBlank :: "jsval \<Rightarrow> bool" where
  "isBlank v = (v = JNull \<or> v = JUndef \<or> trim (toString v) = [])"

definition columnOf :: "string \<Rightarrow> row list \<Rightarrow> jsval list" where
  "columnOf field data = map (\<lambda>r. rowGet r field) data"

definition sampledValues :: "row list \<Rightarrow> string \<Rightarrow> jsval list" where
  "sampledValues sample field = filter (\<lambda>v. \<not> isBlank v) (columnOf field sample)"

text \<open>A string that already is a number.\<close>

definition cleanNumber :: "string \<Rightarrow> bool" where
  "cleanNumber s = (\<not> isNaN (stringToNumber s) \<and> trim s \<noteq> [])"

text \<open>A string that is a number, with a digit, once every character outside \<^verbatim>\<open>[0-9.-]\<close> is removed.\<close>

definition cleansToNumber :: "string \<Rightarrow> bool" where
  "cleansToNumber s =
     (stripNonNumeric s \<noteq> [] \<and> \<not> isNaN (stringToNumber (stripNonNumeric s))
      \<and> hasDigit (stripNonNumeric s))"

definition numericLike :: "jsval \<Rightarrow> bool" where
  "numericLike v =
     (case v of JNum x \<Rightarrow> True | JStr s \<Rightarrow> cleanNumber s \<or> cleansToNumber s | _ \<Rightarrow> False)"

text \<open>
  Real dirt: a string that is not a number as it stands, becomes one by stripping, and has
  a character outside \<^verbatim>\<open>[0-9.-]\<close>.
\<close>

definition hasDirt :: "jsval \<Rightarrow> bool" where
  "hasDirt v =
     (case v of JStr s \<Rightarrow> \<not> cleanNumber s \<and> cleansToNumber s \<and> hasNonNumeric s | _ \<Rightarrow> False)"

definition cleaningCandidate :: "row list \<Rightarrow> string \<Rightarrow> bool" where
  "cleaningCandidate sample field =
     (0 < length (sampledValues sample field)
      \<and> (8 / 10 :: rat)
          \<le> of_nat (length (filter numericLike (sampledValues sample field)))
             / of_nat (length (sampledValues sample field))
      \<and> list_ex hasDirt (sampledValues sample field))"

section \<open>The inferencer's rule, as the specification words it\<close>

text \<open>
  The non-empty sampled values of a field, as the inference loop sees them: it skips
  \<^verbatim>\<open>null\<close>, \<^verbatim>\<open>undefined\<close> and the empty string.
\<close>

definition inferenceValues :: "row list \<Rightarrow> string \<Rightarrow> jsval list" where
  "inferenceValues sample field =
     filter (\<lambda>v. v \<noteq> JNull \<and> v \<noteq> JUndef \<and> v \<noteq> JStr []) (columnOf field sample)"

text \<open>
  A value that parses as a number once \<^verbatim>\<open>$\<close>, \<^verbatim>\<open>,\<close> and \<^verbatim>\<open>%\<close> are stripped and the rest is
  trimmed: something is left, and it is a number.
\<close>

definition parsesAsNumber :: "jsval \<Rightarrow> bool" where
  "parsesAsNumber v =
     (trim (stripSymbols (toString v)) \<noteq> []
      \<and> \<not> isNaN (stringToNumber (trim (stripSymbols (toString v)))))"

text \<open>
  A \<^verbatim>\<open>Date.parse\<close> that takes every string for a date: the hardest case for the precedence of
  the numeric check.
\<close>

definition acceptingDateParse :: "string \<Rightarrow> jsnum" where
  "acceptingDateParse s = Fin 0"

section \<open>Verification: the store\<close>

lemma lookup_append1: "lookup (h @ [c]) a = (if a = length h then Some c else lookup h a)"
  by (auto simp: lookup_def nth_append)

lemma lookup_update: "lookup (h[a := c]) b = (if b = a \<and> a < length h then Some c else lookup h b)"
  by (auto simp: lookup_def)

lemma lookup_length: "lookup h (length h) = None"
  by (simp add: lookup_def)

lemma lookup_Some_less: "lookup h a = Some c \<Longrightarrow> a < length h"
  by (auto simp: lookup_def split: if_splits)

lemma numLess_NaN [simp]: "numLess x NaN = False" "numLess NaN x = False"
  by (cases x; simp)+

lemma extends_refl [simp]: "extends h h"
  by (simp add: extends_def)

lemma extends_length: "extends h h' \<Longrightarrow> length h \<le> length h'"
proof -
  assume "extends h h'"
  then have "length (take (length h) h') = length h" by (simp add: extends_def)
  then show ?thesis by (simp add: min_def split: if_splits)
qed

lemma extends_trans:
  assumes "extends h h1" "extends h1 h2"
  shows "extends h h2"
proof -
  have l: "length h \<le> length h1" using assms(1) by (rule extends_length)
  have "take (length h) h2 = take (length h) (take (length h1) h2)"
    using l by (simp add: min_def)
  also have "\<dots> = take (length h) h1" using assms(2) by (simp add: extends_def)
  also have "\<dots> = h" using assms(1) by (simp add: extends_def)
  finally show ?thesis by (simp add: extends_def)
qed

lemma extends_append [simp]: "extends h (h @ cs)"
  by (simp add: extends_def)

lemma extends_lookup: "extends h h' \<Longrightarrow> lookup h a = Some c \<Longrightarrow> lookup h' a = Some c"
proof -
  assume e: "extends h h'" and l: "lookup h a = Some c"
  have a: "a < length h" using l by (rule lookup_Some_less)
  have "h' ! a = take (length h) h' ! a" using a by simp
  also have "\<dots> = h ! a" using e by (simp add: extends_def)
  finally show ?thesis using l a extends_length[OF e] by (simp add: lookup_def)
qed

lemma extends_update: "extends h h' \<Longrightarrow> length h \<le> a \<Longrightarrow> extends h (h'[a := c])"
  by (simp add: extends_def take_update_cancel)

lemma frame_update: "take k h' = take k h \<Longrightarrow> k \<le> a \<Longrightarrow> take k (h'[a := c]) = take k h"
  by (simp add: take_update_cancel)

lemma lookup_append: "lookup (h @ cs) a =
  (if a < length h then lookup h a else if a < length h + length cs then Some (cs ! (a - length h)) else None)"
  by (auto simp: lookup_def nth_append)

lemma isRow_iff: "isRow h a = (\<exists>r. lookup h a = Some (CRow r))"
  by (simp add: isRow_def split: option.splits cell.splits)

lemma isFields_iff: "isFields h a = (\<exists>r. lookup h a = Some (CFields r))"
  by (simp add: isFields_def split: option.splits cell.splits)

lemma isTypes_iff: "isTypes h a = (\<exists>r. lookup h a = Some (CTypes r))"
  by (simp add: isTypes_def split: option.splits cell.splits)

lemma wfRows_iff: "wfRows h d = (\<exists>rs. lookup h d = Some (CRows rs) \<and> (\<forall>r \<in> set rs. isRow h r))"
  by (simp add: wfRows_def list_all_iff split: option.splits cell.splits)

lemma wfMeta_iff:
  "wfMeta h m = (\<exists>f t. lookup h m = Some (CMeta f t) \<and> isFields h f \<and> (\<forall>ta. t = Some ta \<longrightarrow> isTypes h ta))"
  by (auto simp add: wfMeta_def split: option.splits cell.splits)

lemma wfDataset_iff:
  "wfDataset h ds = (\<exists>d m. lookup h ds = Some (CDataset d m) \<and> wfRows h d \<and> wfMeta h m)"
  by (simp add: wfDataset_def split: option.splits cell.splits)

lemma wfDataset_extends:
  assumes "wfDataset h ds" "extends h h'"
  shows "wfDataset h' ds \<and> datasetRows h' ds = datasetRows h ds \<and> datasetFields h' ds = datasetFields h ds
     \<and> datasetTypes h' ds = datasetTypes h ds \<and> datasetCells h' ds = datasetCells h ds"
proof -
  note L = extends_lookup[OF assms(2)]
  from assms(1) obtain d m where ds: "lookup h ds = Some (CDataset d m)" and wr: "wfRows h d" and wm: "wfMeta h m"
    unfolding wfDataset_iff by blast
  from wr obtain rs where d: "lookup h d = Some (CRows rs)" and rows: "\<forall>r \<in> set rs. \<exists>x. lookup h r = Some (CRow x)"
    unfolding wfRows_iff isRow_iff by blast
  from wm obtain f t fs where m: "lookup h m = Some (CMeta f t)" and f: "lookup h f = Some (CFields fs)"
    and t: "\<forall>ta. t = Some ta \<longrightarrow> (\<exists>ts. lookup h ta = Some (CTypes ts))"
    unfolding wfMeta_iff isFields_iff isTypes_iff by blast
  have rows': "\<forall>r \<in> set rs. lookup h' r = lookup h r"
  proof
    fix r assume "r \<in> set rs"
    with rows obtain x where x: "lookup h r = Some (CRow x)" by blast
    from L[OF x] x show "lookup h' r = lookup h r" by simp
  qed
  have "\<forall>r \<in> set rs. isRow h' r"
    unfolding isRow_iff using rows rows' by simp
  then have "wfRows h' d" unfolding wfRows_iff using L[OF d] by simp
  moreover have "wfMeta h' m"
  proof (cases t)
    case None
    then show ?thesis unfolding wfMeta_iff isFields_iff using L[OF m] L[OF f] by simp
  next
    case (Some ta)
    with t obtain ts where ts: "lookup h ta = Some (CTypes ts)" by blast
    show ?thesis unfolding wfMeta_iff isFields_iff isTypes_iff using L[OF m] L[OF f] L[OF ts] Some by simp
  qed
  ultimately have w: "wfDataset h' ds" unfolding wfDataset_iff using L[OF ds] by simp
  have r: "datasetRows h' ds = datasetRows h ds"
    using L[OF ds] L[OF d] ds d rows'
    by (simp add: datasetRows_def rowRefs_def dataRef_def rowRefsAt_def rowAt_def)
  have fl: "datasetFields h' ds = datasetFields h ds"
    using L[OF ds] L[OF m] L[OF f] ds m f
    by (simp add: datasetFields_def fieldsRef_def metaRef_def fieldsAt_def)
  have ty: "datasetTypes h' ds = datasetTypes h ds"
  proof (cases t)
    case None
    then show ?thesis using L[OF ds] L[OF m] ds m
      by (simp add: datasetTypes_def typesRef_def metaRef_def)
  next
    case (Some ta)
    with t have "\<exists>ts. lookup h ta = Some (CTypes ts)" by blast
    then obtain ts where ts: "lookup h ta = Some (CTypes ts)" by blast
    show ?thesis using L[OF ds] L[OF m] ds m Some L[OF ts] ts
      by (simp add: datasetTypes_def typesRef_def metaRef_def typesAt_def)
  qed
  have c: "datasetCells h' ds = datasetCells h ds"
    using L[OF ds] L[OF d] L[OF m] ds d m
    by (simp add: datasetCells_def rowRefsAt_def)
  show ?thesis using w r fl ty c by blast
qed

lemma allocDataset_eq:
  "allocDataset h rows fs ts =
     (let n = length h; k = length rows in
      case ts of
        None \<Rightarrow> (h @ map CRow rows @ [CRows [n ..< n + k], CFields fs, CMeta (n + k + 1) None,
                                        CDataset (n + k) (n + k + 2)], n + k + 3)
      | Some x \<Rightarrow> (h @ map CRow rows @ [CRows [n ..< n + k], CFields fs, CTypes x,
                                         CMeta (n + k + 1) (Some (n + k + 2)),
                                         CDataset (n + k) (n + k + 3)], n + k + 4))"
  by (simp add: allocDataset_def alloc_def allocAll_def Let_def split: option.splits)

lemma lookup_fresh:
  "lookup (h @ map CRow rows @ rest) a =
     (if a < length h then lookup h a
      else if a < length h + length rows then Some (CRow (rows ! (a - length h)))
      else lookup rest (a - length h - length rows))"
  by (auto simp: lookup_def nth_append)

lemma lookup_Cons: "lookup (c # cs) a = (case a of 0 \<Rightarrow> Some c | Suc b \<Rightarrow> lookup cs b)"
  by (auto simp: lookup_def split: nat.splits)

lemma lookup_Nil [simp]: "lookup [] a = None"
  by (simp add: lookup_def)

lemma allocDataset_props:
  assumes "allocDataset h rows fs ts = (h', nd)"
  shows "extends h h'" "length h \<le> nd" "wfDataset h' nd"
    "datasetRows h' nd = rows" "datasetFields h' nd = fs" "datasetTypes h' nd = ts"
    "list_all (\<lambda>a. length h \<le> a) (datasetCells h' nd)"
proof -
  let ?n = "length h" and ?k = "length rows"
  show "extends h h'" using assms by (auto simp: allocDataset_eq Let_def split: option.splits)
  show "length h \<le> nd" using assms by (auto simp: allocDataset_eq Let_def split: option.splits)
  have rowsAt: "\<And>rest. map (rowAt (h @ map CRow rows @ rest)) [?n ..< ?n + ?k] = rows"
    by (rule nth_equalityI) (simp_all add: rowAt_def lookup_fresh)
  have isrow: "\<And>rest. \<forall>r \<in> set [?n ..< ?n + ?k]. isRow (h @ map CRow rows @ rest) r"
    by (simp add: isRow_iff lookup_fresh)
  show "wfDataset h' nd"
  proof (cases ts)
    case None
    then have h': "h' = h @ map CRow rows @ [CRows [?n ..< ?n + ?k], CFields fs, CMeta (?n + ?k + 1) None,
                                        CDataset (?n + ?k) (?n + ?k + 2)]" and nd: "nd = ?n + ?k + 3"
      using assms by (simp_all add: allocDataset_eq Let_def)
    show ?thesis
      unfolding wfDataset_iff wfRows_iff wfMeta_iff isFields_iff isTypes_iff h' nd
      using isrow
      by (simp add: lookup_fresh lookup_Cons)
  next
    case (Some x)
    then have h': "h' = h @ map CRow rows @ [CRows [?n ..< ?n + ?k], CFields fs, CTypes x,
                                         CMeta (?n + ?k + 1) (Some (?n + ?k + 2)),
                                         CDataset (?n + ?k) (?n + ?k + 3)]" and nd: "nd = ?n + ?k + 4"
      using assms by (simp_all add: allocDataset_eq Let_def)
    show ?thesis
      unfolding wfDataset_iff wfRows_iff wfMeta_iff isFields_iff isTypes_iff h' nd
      using isrow
      by (simp add: lookup_fresh lookup_Cons)
  qed
  show "datasetRows h' nd = rows"
    using assms rowsAt
    by (auto simp: allocDataset_eq Let_def datasetRows_def rowRefs_def dataRef_def rowRefsAt_def
        lookup_fresh lookup_Cons split: option.splits)
  show "datasetFields h' nd = fs"
    using assms
    by (auto simp: allocDataset_eq Let_def datasetFields_def fieldsRef_def metaRef_def fieldsAt_def
        lookup_fresh lookup_Cons split: option.splits)
  show "datasetTypes h' nd = ts"
    using assms
    by (auto simp: allocDataset_eq Let_def datasetTypes_def typesRef_def metaRef_def typesAt_def
        lookup_fresh lookup_Cons split: option.splits)
  show "list_all (\<lambda>a. length h \<le> a) (datasetCells h' nd)"
    using assms
    by (auto simp: allocDataset_eq Let_def datasetCells_def rowRefsAt_def list_all_iff
        lookup_fresh lookup_Cons split: option.splits)
qed

section \<open>Verification: removing rows\<close>

lemma assignData_lookup:
  assumes "lookup h ds = Some (CDataset d m)"
  shows "lookup (assignData h ds refs) a =
    (if a = ds then Some (CDataset (length h) m)
     else if a = length h then Some (CRows refs)
     else lookup h a)"
  using assms lookup_Some_less[OF assms]
  by (simp add: assignData_def alloc_def lookup_update lookup_append1)

lemma assignData_noop:
  "(\<forall>d m. lookup h ds \<noteq> Some (CDataset d m)) \<Longrightarrow> assignData h ds refs = h"
  by (auto simp: assignData_def split: option.splits cell.splits)

lemma rowAt_assignData: "rowAt (assignData h ds refs) a = rowAt h a"
proof (cases "\<exists>d m. lookup h ds = Some (CDataset d m)")
  case True
  then obtain d m where l: "lookup h ds = Some (CDataset d m)" by blast
  show ?thesis
    using l by (auto simp: rowAt_def assignData_lookup[OF l] lookup_length)
next
  case False
  then show ?thesis by (simp add: assignData_noop)
qed

lemma rowRefs_assignData:
  "lookup h ds = Some (CDataset d m) \<Longrightarrow> rowRefs (assignData h ds refs) ds = refs"
proof -
  assume l: "lookup h ds = Some (CDataset d m)"
  have "ds \<noteq> length h" using lookup_Some_less[OF l] by simp
  then show ?thesis
    by (simp add: rowRefs_def dataRef_def rowRefsAt_def assignData_lookup[OF l])
qed

lemma rowRefs_transformRemoveRows:
  "rowRefs (transformRemoveRows h ds cs) ds
     = filter (\<lambda>a. \<not> everyCondition cs (rowAt h a)) (rowRefs h ds)"
proof (cases "\<exists>d m. lookup h ds = Some (CDataset d m)")
  case True
  then obtain d m where l: "lookup h ds = Some (CDataset d m)" by blast
  show ?thesis unfolding transformRemoveRows_def by (rule rowRefs_assignData[OF l])
next
  case False
  then have "rowRefs h ds = []"
    by (auto simp: rowRefs_def dataRef_def split: option.splits cell.splits)
  then show ?thesis using False by (simp add: transformRemoveRows_def assignData_noop)
qed

lemma datasetRows_transformRemoveRows:
  "datasetRows (transformRemoveRows h ds cs) ds
     = filter (\<lambda>r. \<not> everyCondition cs r) (datasetRows h ds)"
proof -
  have "map (rowAt (transformRemoveRows h ds cs)) (rowRefs (transformRemoveRows h ds cs) ds)
      = map (rowAt h) (rowRefs (transformRemoveRows h ds cs) ds)"
    by (simp add: transformRemoveRows_def rowAt_assignData)
  then show ?thesis
    by (simp add: datasetRows_def rowRefs_transformRemoveRows filter_map comp_def)
qed

lemma checkCondition_greater_than:
  "cOperator c = ''greater_than'' \<Longrightarrow>
   checkCondition r c = (rowGet r (cColumn c) \<noteq> JUndef \<and>
      numLess (numericOperand (cValue c)) (numericParse (rowGet r (cColumn c))))"
  by (cases "cValue c")
     (auto simp: checkCondition_def Let_def numericParse_def numericOperand_def isNaN_def)

lemma checkCondition_less_than:
  "cOperator c = ''less_than'' \<Longrightarrow>
   checkCondition r c = (rowGet r (cColumn c) \<noteq> JUndef \<and>
      numLess (numericParse (rowGet r (cColumn c))) (numericOperand (cValue c)))"
  by (cases "cValue c")
     (auto simp: checkCondition_def Let_def numericParse_def numericOperand_def isNaN_def)

text \<open>
  C2, as the specification words it, fails. The rows \<^verbatim>\<open>{a:"1"}\<close> and \<^verbatim>\<open>{a:"2"}\<close> with the single
  condition \<^verbatim>\<open>a equals "1"\<close>: the first row meets the conjunction and the second fails it,
  and \<^verbatim>\<open>transformRemoveRows\<close> keeps the second (failing) row and drops the first.
\<close>

theorem remove_rows_keeps_the_failing_row:
  "datasetRows
     [CRow [(''a'', JStr ''1'')], CRow [(''a'', JStr ''2'')], CRows [0, 1],
      CFields [''a''], CTypes [(''a'', ''numerical'')], CMeta 3 (Some 4), CDataset 2 5] 6
     = [[(''a'', JStr ''1'')], [(''a'', JStr ''2'')]]
   \<and> everyCondition [\<lparr>cColumn = ''a'', cOperator = ''equals'', cValue = JStr ''1''\<rparr>]
        [(''a'', JStr ''1'')]
   \<and> \<not> everyCondition [\<lparr>cColumn = ''a'', cOperator = ''equals'', cValue = JStr ''1''\<rparr>]
        [(''a'', JStr ''2'')]
   \<and> datasetRows
       (transformRemoveRows
         [CRow [(''a'', JStr ''1'')], CRow [(''a'', JStr ''2'')], CRows [0, 1],
          CFields [''a''], CTypes [(''a'', ''numerical'')], CMeta 3 (Some 4), CDataset 2 5] 6
         [\<lparr>cColumn = ''a'', cOperator = ''equals'', cValue = JStr ''1''\<rparr>]) 6
     = [[(''a'', JStr ''2'')]]"
  by code_simp

text \<open>
  C2, amended: \<^verbatim>\<open>remove_rows\<close> drops exactly the rows that meet every condition and keeps,
  in order, the rows for which some condition fails. \<^verbatim>\<open>greater_than\<close> and \<^verbatim>\<open>less_than\<close>
  compare the numeric parse (commas stripped) of the cell with the comparison value (itself
  when it is a number, its numeric parse otherwise), and are false when the cell is absent
  or either side does not parse.
\<close>

theorem remove_rows_drops_rows_meeting_all_conditions:
  "datasetRows (transformRemoveRows h ds cs) ds
     = filter (\<lambda>r. \<not> everyCondition cs r) (datasetRows h ds)
   \<and> (cOperator c = ''greater_than'' \<longrightarrow>
        checkCondition r c = (rowGet r (cColumn c) \<noteq> JUndef \<and>
          numLess (numericOperand (cValue c)) (numericParse (rowGet r (cColumn c)))))
   \<and> (cOperator c = ''less_than'' \<longrightarrow>
        checkCondition r c = (rowGet r (cColumn c) \<noteq> JUndef \<and>
          numLess (numericParse (rowGet r (cColumn c))) (numericOperand (cValue c))))
   \<and> ((cOperator c = ''greater_than'' \<or> cOperator c = ''less_than'')
        \<and> (isNaN (numericParse (rowGet r (cColumn c))) \<or> isNaN (numericOperand (cValue c)))
        \<longrightarrow> \<not> checkCondition r c)"
proof -
  have nan: "(cOperator c = ''greater_than'' \<or> cOperator c = ''less_than'')
        \<and> (isNaN (numericParse (rowGet r (cColumn c))) \<or> isNaN (numericOperand (cValue c)))
        \<longrightarrow> \<not> checkCondition r c"
    by (auto simp: checkCondition_greater_than checkCondition_less_than isNaN_def)
  show ?thesis
    using datasetRows_transformRemoveRows[of h ds cs]
      checkCondition_greater_than[of c r] checkCondition_less_than[of c r] nan
    by blast
qed

text \<open>
  The amended C2 at a concrete dataset: of the cells \<^verbatim>\<open>"1,200"\<close>, \<^verbatim>\<open>"n/a"\<close> and \<^verbatim>\<open>"500"\<close>, the
  condition \<^verbatim>\<open>a greater_than 1000\<close> removes the first only; the unparseable cell fails the
  comparison.
\<close>

theorem remove_rows_drops_rows_meeting_all_conditions_witness:
  "datasetRows
     (transformRemoveRows
       [CRow [(''a'', JStr ''1,200'')], CRow [(''a'', JStr ''n/a'')], CRow [(''a'', JStr ''500'')],
        CRows [0, 1, 2], CFields [''a''], CTypes [(''a'', ''string'')], CMeta 4 (Some 5),
        CDataset 3 6] 7
       [\<lparr>cColumn = ''a'', cOperator = ''greater_than'', cValue = JNum (Fin 1000)\<rparr>]) 7
     = [[(''a'', JStr ''n/a'')], [(''a'', JStr ''500'')]]
   \<and> \<not> checkCondition [(''a'', JStr ''n/a'')]
        \<lparr>cColumn = ''a'', cOperator = ''greater_than'', cValue = JNum (Fin 1000)\<rparr>"
proof -
  let ?h = "[CRow [(''a'', JStr ''1,200'')], CRow [(''a'', JStr ''n/a'')],
        CRow [(''a'', JStr ''500'')],
        CRows [0, 1, 2], CFields [''a''], CTypes [(''a'', ''string'')], CMeta 4 (Some 5),
        CDataset 3 6]"
  let ?c = "\<lparr>cColumn = ''a'', cOperator = ''greater_than'', cValue = JNum (Fin 1000)\<rparr>"
  let ?r = "[(''a'', JStr ''n/a'')]"
  note t = remove_rows_drops_rows_meeting_all_conditions[of ?h 7 "[?c]" ?c ?r]
  have e1: "filter (\<lambda>r. \<not> everyCondition [?c] r) (datasetRows ?h 7)
      = [[(''a'', JStr ''n/a'')], [(''a'', JStr ''500'')]]"
    by code_simp
  have e2: "(cOperator ?c = ''greater_than'' \<or> cOperator ?c = ''less_than'')
      \<and> (isNaN (numericParse (rowGet ?r (cColumn ?c))) \<or> isNaN (numericOperand (cValue ?c)))"
    by code_simp
  from t e2 have "\<not> checkCondition ?r ?c" by blast
  moreover from t e1 have "datasetRows (transformRemoveRows ?h 7 [?c]) 7
      = [[(''a'', JStr ''n/a'')], [(''a'', JStr ''500'')]]"
    by (simp only:)
  ultimately show ?thesis by blast
qed


section \<open>Verification: the filter engine\<close>


lemma sameFilter_eq: "sameFilter f g = (f = g)"
  by (cases f; cases g) (simp add: sameFilter_def)

lemma findIndex_range: "findIndex p xs = - 1 \<or> (0 \<le> findIndex p xs \<and> findIndex p xs < int (length xs))"
  by (induction xs) (auto simp: Let_def)

lemma findIndex_found:
  "\<exists>x \<in> set xs. p x \<Longrightarrow> 0 \<le> findIndex p xs \<and> nat (findIndex p xs) < length xs \<and> p (xs ! nat (findIndex p xs))"
proof (induction xs)
  case Nil
  then show ?case by simp
next
  case (Cons a xs)
  show ?case
  proof (cases "p a")
    case True
    then show ?thesis by simp
  next
    case False
    with Cons.prems have "\<exists>x \<in> set xs. p x" by auto
    from Cons.IH[OF this] show ?thesis using False
      by (auto simp: Let_def nat_add_distrib)
  qed
qed

lemma distinct_removeDuplicates: "distinct (removeDuplicates xs)"
proof -
  let ?P = "\<lambda>(index, flt). int index = findIndex (\<lambda>f. sameFilter f flt) xs"
  have "inj_on snd (set (filter ?P (enumerate 0 xs)))"
    by (auto simp: inj_on_def)
  moreover have "distinct (filter ?P (enumerate 0 xs))"
    by (simp add: distinct_enumerate)
  ultimately show ?thesis
    unfolding removeDuplicates_def by (simp add: distinct_map)
qed

lemma set_removeDuplicates: "set (removeDuplicates xs) = set xs"
proof
  show "set (removeDuplicates xs) \<subseteq> set xs"
    by (auto simp: removeDuplicates_def in_set_enumerate_eq)
next
  show "set xs \<subseteq> set (removeDuplicates xs)"
  proof
    fix x assume x: "x \<in> set xs"
    let ?i = "findIndex (\<lambda>f. sameFilter f x) xs"
    have "\<exists>y \<in> set xs. sameFilter y x" using x by (auto simp: sameFilter_eq)
    from findIndex_found[OF this]
    have i: "0 \<le> ?i" "nat ?i < length xs" "xs ! nat ?i = x" by (auto simp: sameFilter_eq)
    then have "(nat ?i, x) \<in> set (enumerate 0 xs)" by (auto simp: in_set_enumerate_eq)
    moreover have "int (nat ?i) = ?i" using i by simp
    ultimately show "x \<in> set (removeDuplicates xs)"
      unfolding removeDuplicates_def by force
  qed
qed

lemma applyFilters_filters [simp]:
  "stagedFilters (applyFilters s) = stagedFilters s"
  "activeFilters (applyFilters s) = activeFilters s"
  by (auto simp: applyFilters_def Let_def split: option.splits cell.splits prod.splits)

lemma distinct_splice:
  assumes "distinct xs"
  shows "distinct (take i xs @ drop (Suc i) xs)"
proof -
  have "distinct (take i xs @ drop i xs)" using assms by simp
  then have d: "distinct (take i xs)" "distinct (drop i xs)" "set (take i xs) \<inter> set (drop i xs) = {}"
    unfolding distinct_append by blast+
  have sub: "set (drop (Suc i) xs) \<subseteq> set (drop i xs)"
    by (rule set_drop_subset_set_drop) simp
  have "distinct (drop (Suc i) xs)" using assms by simp
  with d sub show ?thesis unfolding distinct_append by blast
qed

lemma filtersDistinct_stageFilter: "filtersDistinct s \<Longrightarrow> filtersDistinct (stageFilter s c l)"
  by (auto simp: filtersDistinct_def stageFilter_def Let_def list_ex_iff sameFilter_eq
      split: option.splits)

lemma filtersDistinct_handleEvent:
  "filtersDistinct s \<Longrightarrow> filtersDistinct (handleEvent dp lc s ev)"
proof (cases ev)
  case (FileParsed rows fs)
  assume "filtersDistinct s"
  then show ?thesis using FileParsed
    by (simp add: filtersDistinct_def handleSuccessfulParse_def Let_def split: prod.splits)
next
  case (ChartDoubleClick c l)
  assume "filtersDistinct s"
  then show ?thesis using ChartDoubleClick by (simp add: filtersDistinct_stageFilter)
next
  case (RemoveStaged i)
  assume "filtersDistinct s"
  then show ?thesis using RemoveStaged distinct_splice[of "stagedFilters s" i]
    by (simp add: filtersDistinct_def removeStagedFilter_def)
next
  case ApplyStaged
  then show ?thesis
    by (simp add: filtersDistinct_def handleApplyStagedFilters_def distinct_removeDuplicates)
next
  case ClearFilters
  assume "filtersDistinct s"
  then show ?thesis using ClearFilters
    by (simp add: filtersDistinct_def handleClearFilters_def)
next
  case (Transformation cfg)
  assume "filtersDistinct s"
  then show ?thesis using Transformation
    by (auto simp: filtersDistinct_def handleTransformation_def
        split: option.splits prod.splits transformResult.splits)
next
  case (ComplexAnalysis plan)
  assume "filtersDistinct s"
  then show ?thesis using ComplexAnalysis
    by (auto simp: filtersDistinct_def handleComplexAnalysis_def executeAnalysisPlan_def Let_def
        split: option.splits prod.splits list.splits)
qed (auto simp: filtersDistinct_def clearData_def handleCancelStaging_def)

lemma filtersDistinct_foldl:
  "filtersDistinct s \<Longrightarrow> filtersDistinct (foldl (handleEvent dp lc) s evs)"
  by (induction evs arbitrary: s) (simp_all add: filtersDistinct_handleEvent)

lemma filtersDistinct_runEvents: "filtersDistinct (runEvents dp lc evs)"
  unfolding runEvents_def
  by (rule filtersDistinct_foldl) (simp add: filtersDistinct_def initialSession_def)

lemma stage_rejected:
  "list_ex (\<lambda>f. sameFilter f \<lparr>fColumn = c, fValue = l\<rparr>) (stagedFilters s @ activeFilters s)
   \<Longrightarrow> findMatchingColumn n (datasetFields (store s) ad) = Some c \<Longrightarrow> activeData s = Some ad
   \<Longrightarrow> stageFilter s n l = s"
  by (auto simp: stageFilter_def Let_def list_ex_iff)



lemma stageFilter_cases:
  "stageFilter s n l = s \<or>
   (\<exists>ad c. activeData s = Some ad \<and> findMatchingColumn n (datasetFields (store s) ad) = Some c
      \<and> l \<noteq> []
      \<and> \<not> list_ex (\<lambda>f. sameFilter f \<lparr>fColumn = c, fValue = l\<rparr>) (stagedFilters s)
      \<and> \<not> list_ex (\<lambda>f. sameFilter f \<lparr>fColumn = c, fValue = l\<rparr>) (activeFilters s)
      \<and> stageFilter s n l = s\<lparr>stagedFilters := stagedFilters s @ [\<lparr>fColumn = c, fValue = l\<rparr>]\<rparr>)"
  by (simp add: stageFilter_def Let_def split: option.splits)

lemma stageFilter_idem: "stageFilter (stageFilter s n l) n l = stageFilter s n l"
proof -
  from stageFilter_cases[of s n l] show ?thesis
  proof
    assume "stageFilter s n l = s"
    then show ?thesis by simp
  next
    assume "\<exists>ad c. activeData s = Some ad \<and> findMatchingColumn n (datasetFields (store s) ad) = Some c
      \<and> l \<noteq> []
      \<and> \<not> list_ex (\<lambda>f. sameFilter f \<lparr>fColumn = c, fValue = l\<rparr>) (stagedFilters s)
      \<and> \<not> list_ex (\<lambda>f. sameFilter f \<lparr>fColumn = c, fValue = l\<rparr>) (activeFilters s)
      \<and> stageFilter s n l = s\<lparr>stagedFilters := stagedFilters s @ [\<lparr>fColumn = c, fValue = l\<rparr>]\<rparr>"
    then obtain ad c where a: "activeData s = Some ad"
      "findMatchingColumn n (datasetFields (store s) ad) = Some c"
      and e: "stageFilter s n l = s\<lparr>stagedFilters := stagedFilters s @ [\<lparr>fColumn = c, fValue = l\<rparr>]\<rparr>"
      by blast
    have "stageFilter (s\<lparr>stagedFilters := stagedFilters s @ [\<lparr>fColumn = c, fValue = l\<rparr>]\<rparr>) n l
        = s\<lparr>stagedFilters := stagedFilters s @ [\<lparr>fColumn = c, fValue = l\<rparr>]\<rparr>"
      using a by (simp add: stageFilter_def Let_def sameFilter_def)
    then show ?thesis by (simp only: e)
  qed
qed

lemma stageFilter_twice_once: "activeData s0 = Some ad0 \<and> findMatchingColumn n0 (datasetFields (store s0) ad0) = Some c0
        \<and> l0 \<noteq> [] \<and> stagedFilters s0 = [] \<and> activeFilters s0 = []
       \<longrightarrow> stagedFilters (stageFilter (stageFilter s0 n0 l0) n0 l0) = [\<lparr>fColumn = c0, fValue = l0\<rparr>]"
  by (simp add: stageFilter_idem) (simp add: stageFilter_def)

lemma stageFilter_rejects_known: "activeData s = Some ad \<and> findMatchingColumn n (datasetFields (store s) ad) = Some c
        \<and> (\<exists>f \<in> set (stagedFilters s) \<union> set (activeFilters s). fColumn f = c \<and> fValue f = l)
       \<longrightarrow> stageFilter s n l = s"
proof (intro impI, elim conjE bexE)
  fix f assume a: "activeData s = Some ad" "findMatchingColumn n (datasetFields (store s) ad) = Some c"
    and f: "f \<in> set (stagedFilters s) \<union> set (activeFilters s)" "fColumn f = c" "fValue f = l"
  have "list_ex (\<lambda>g. sameFilter g \<lparr>fColumn = c, fValue = l\<rparr>) (stagedFilters s)
     \<or> list_ex (\<lambda>g. sameFilter g \<lparr>fColumn = c, fValue = l\<rparr>) (activeFilters s)"
    using f by (auto simp: list_ex_iff sameFilter_def)
  then show "stageFilter s n l = s"
    using a by (auto simp: stageFilter_def Let_def)
qed

lemma distinct_filter_keys:
  "distinct (map (\<lambda>f. (fColumn f, fValue f)) fs) = distinct (fs :: filterEntry list)"
proof -
  have "inj (\<lambda>f :: filterEntry. (fColumn f, fValue f))"
    by (rule injI) simp
  then show ?thesis by (simp add: distinct_map inj_on_def)
qed

text \<open>
  C8: a double click whose filter (resolved column, clicked label) is already staged or
  active leaves the session as it is; after any sequence of events neither the staged
  nor the active list holds two entries with the same column and value; staging the same
  filter twice stages it once; and the commit sets the active list to the concatenation of
  the active and the staged filters without its duplicates, and empties the staged list.
\<close>

theorem staged_and_active_filters_have_no_duplicates:
  "distinct (map (\<lambda>f. (fColumn f, fValue f)) (stagedFilters (runEvents dp lc evs)))
   \<and> distinct (map (\<lambda>f. (fColumn f, fValue f)) (activeFilters (runEvents dp lc evs)))
   \<and> (activeData s = Some ad \<and> findMatchingColumn n (datasetFields (store s) ad) = Some c
        \<and> (\<exists>f \<in> set (stagedFilters s) \<union> set (activeFilters s). fColumn f = c \<and> fValue f = l)
       \<longrightarrow> stageFilter s n l = s)
   \<and> stageFilter (stageFilter s0 n0 l0) n0 l0 = stageFilter s0 n0 l0
   \<and> (activeData s0 = Some ad0 \<and> findMatchingColumn n0 (datasetFields (store s0) ad0) = Some c0
        \<and> l0 \<noteq> [] \<and> stagedFilters s0 = [] \<and> activeFilters s0 = []
       \<longrightarrow> stagedFilters (stageFilter (stageFilter s0 n0 l0) n0 l0) = [\<lparr>fColumn = c0, fValue = l0\<rparr>])
   \<and> activeFilters (handleApplyStagedFilters s1) = removeDuplicates (activeFilters s1 @ stagedFilters s1)
   \<and> distinct (map (\<lambda>f. (fColumn f, fValue f)) (activeFilters (handleApplyStagedFilters s1)))
   \<and> set (activeFilters (handleApplyStagedFilters s1)) = set (activeFilters s1) \<union> set (stagedFilters s1)
   \<and> stagedFilters (handleApplyStagedFilters s1) = []"
proof -
  have inv: "filtersDistinct (runEvents dp lc evs)" by (rule filtersDistinct_runEvents)
  have commit: "activeFilters (handleApplyStagedFilters s1) = removeDuplicates (activeFilters s1 @ stagedFilters s1)"
    "stagedFilters (handleApplyStagedFilters s1) = []"
    by (simp_all add: handleApplyStagedFilters_def)
  have d1: "distinct (map (\<lambda>f. (fColumn f, fValue f)) (stagedFilters (runEvents dp lc evs)))"
    and d2: "distinct (map (\<lambda>f. (fColumn f, fValue f)) (activeFilters (runEvents dp lc evs)))"
    using inv by (simp_all add: filtersDistinct_def distinct_filter_keys)
  have d3: "distinct (map (\<lambda>f. (fColumn f, fValue f)) (activeFilters (handleApplyStagedFilters s1)))"
    by (simp add: commit distinct_filter_keys distinct_removeDuplicates)
  have st: "set (activeFilters (handleApplyStagedFilters s1)) = set (activeFilters s1) \<union> set (stagedFilters s1)"
    by (simp add: commit set_removeDuplicates)
  show ?thesis
    by (intro conjI d1 d2 stageFilter_rejects_known stageFilter_idem stageFilter_twice_once commit d3 st)
qed

text \<open>
  C8 on a session with the rows \<^verbatim>\<open>{x:"a"}\<close>, \<^verbatim>\<open>{x:"b"}\<close>: two double clicks on the label
  \<^verbatim>\<open>a\<close> stage one filter, and a further click on it changes nothing.
\<close>

theorem staged_and_active_filters_have_no_duplicates_witness:
  "stagedFilters
     (stageFilter
       (stageFilter
         \<lparr>store = [CRow [(''x'', JStr ''a'')], CRow [(''x'', JStr ''b'')], CRows [0, 1],
                   CFields [''x''], CTypes [(''x'', ''string'')], CMeta 3 (Some 4), CDataset 2 5],
          originalData = Some 6, activeData = Some 6, activeFilters = [],
          stagedFilters = [], isFilteredState = False\<rparr>
         (Some ''x'') ''a'')
       (Some ''x'') ''a'')
     = [\<lparr>fColumn = ''x'', fValue = ''a''\<rparr>]
   \<and> stageFilter
        \<lparr>store = [CRow [(''x'', JStr ''a'')], CRow [(''x'', JStr ''b'')], CRows [0, 1],
                  CFields [''x''], CTypes [(''x'', ''string'')], CMeta 3 (Some 4), CDataset 2 5],
         originalData = Some 6, activeData = Some 6, activeFilters = [],
         stagedFilters = [\<lparr>fColumn = ''x'', fValue = ''a''\<rparr>], isFilteredState = False\<rparr>
        (Some ''x'') ''a''
     = \<lparr>store = [CRow [(''x'', JStr ''a'')], CRow [(''x'', JStr ''b'')], CRows [0, 1],
                 CFields [''x''], CTypes [(''x'', ''string'')], CMeta 3 (Some 4), CDataset 2 5],
        originalData = Some 6, activeData = Some 6, activeFilters = [],
        stagedFilters = [\<lparr>fColumn = ''x'', fValue = ''a''\<rparr>], isFilteredState = False\<rparr>"
proof -
  let ?h = "[CRow [(''x'', JStr ''a'')], CRow [(''x'', JStr ''b'')], CRows [0, 1],
             CFields [''x''], CTypes [(''x'', ''string'')], CMeta 3 (Some 4), CDataset 2 5]"
  let ?S0 = "\<lparr>store = ?h, originalData = Some 6, activeData = Some 6, activeFilters = [],
              stagedFilters = [], isFilteredState = False\<rparr>"
  let ?S1 = "\<lparr>store = ?h, originalData = Some 6, activeData = Some 6, activeFilters = [],
              stagedFilters = [\<lparr>fColumn = ''x'', fValue = ''a''\<rparr>], isFilteredState = False\<rparr>"
  note t = staged_and_active_filters_have_no_duplicates
             [where s = ?S1 and ad = 6 and n = "Some ''x''" and c = "''x''" and l = "''a''"
                and ?s0.0 = ?S0 and ?ad0.0 = 6 and ?n0.0 = "Some ''x''" and ?c0.0 = "''x''"
                and ?l0.0 = "''a''"]
  have p1: "activeData ?S1 = Some 6 \<and> findMatchingColumn (Some ''x'') (datasetFields (store ?S1) 6) = Some ''x''
        \<and> (\<exists>f \<in> set (stagedFilters ?S1) \<union> set (activeFilters ?S1). fColumn f = ''x'' \<and> fValue f = ''a'')"
    by code_simp
  have p0: "activeData ?S0 = Some 6 \<and> findMatchingColumn (Some ''x'') (datasetFields (store ?S0) 6) = Some ''x''
        \<and> ''a'' \<noteq> [] \<and> stagedFilters ?S0 = [] \<and> activeFilters ?S0 = []"
    by code_simp
  from t p1 have "stageFilter ?S1 (Some ''x'') ''a'' = ?S1" by blast
  moreover from t p0 have "stagedFilters (stageFilter (stageFilter ?S0 (Some ''x'') ''a'') (Some ''x'') ''a'')
      = [\<lparr>fColumn = ''x'', fValue = ''a''\<rparr>]" by blast
  ultimately show ?thesis by blast
qed


section \<open>Verification: ownership of objects\<close>

lemma ownedFromI:
  assumes "lookup h ds = Some (CDataset d m)" "lookup h d = Some (CRows rs)"
    "\<forall>r \<in> set rs. isRow h r \<and> k \<le> r" "lookup h m = Some (CMeta f t)" "isFields h f"
    "\<forall>ta. t = Some ta \<longrightarrow> isTypes h ta \<and> k \<le> ta" "k \<le> ds" "k \<le> d" "k \<le> m" "k \<le> f"
  shows "ownedFrom k h ds"
proof -
  have "wfRows h d" unfolding wfRows_iff using assms(2,3) by simp
  moreover have "wfMeta h m" unfolding wfMeta_iff using assms(4,5,6) by simp
  ultimately have "wfDataset h ds" unfolding wfDataset_iff using assms(1) by simp
  moreover have "list_all (\<lambda>a. k \<le> a) (datasetCells h ds)"
    using assms by (cases t) (simp_all add: datasetCells_def rowRefsAt_def list_all_iff)
  ultimately show ?thesis by (simp add: ownedFrom_def)
qed

lemma ownedFromE:
  assumes "ownedFrom k h ds"
  obtains d m rs f t where "lookup h ds = Some (CDataset d m)" "lookup h d = Some (CRows rs)"
    "\<forall>r \<in> set rs. isRow h r \<and> k \<le> r" "lookup h m = Some (CMeta f t)" "isFields h f"
    "\<forall>ta. t = Some ta \<longrightarrow> isTypes h ta \<and> k \<le> ta" "k \<le> ds" "k \<le> d" "k \<le> m" "k \<le> f"
proof -
  from assms have w: "wfDataset h ds" and c: "list_all (\<lambda>a. k \<le> a) (datasetCells h ds)"
    by (simp_all add: ownedFrom_def)
  from w obtain d m where ds: "lookup h ds = Some (CDataset d m)" and wr: "wfRows h d" and wm: "wfMeta h m"
    unfolding wfDataset_iff by blast
  from wr obtain rs where d: "lookup h d = Some (CRows rs)" and rows: "\<forall>r \<in> set rs. isRow h r"
    unfolding wfRows_iff by blast
  from wm obtain f t where m: "lookup h m = Some (CMeta f t)" and f: "isFields h f"
    and t: "\<forall>ta. t = Some ta \<longrightarrow> isTypes h ta"
    unfolding wfMeta_iff by blast
  have cells: "k \<le> ds" "k \<le> d" "\<forall>r \<in> set rs. k \<le> r" "k \<le> m" "k \<le> f" "\<forall>ta. t = Some ta \<longrightarrow> k \<le> ta"
    using c ds d m by (cases t; simp add: datasetCells_def rowRefsAt_def list_all_iff)+
  show ?thesis
    using that[OF ds d _ m f] rows t cells by blast
qed


lemma ownedFrom_extends:
  assumes "ownedFrom k h ds" "extends h h'"
  shows "ownedFrom k h' ds"
  using assms wfDataset_extends[of h ds h'] by (simp add: ownedFrom_def)

lemma ownedFrom_assignData:
  assumes "ownedFrom k h ds" "\<forall>r \<in> set refs. isRow h r \<and> k \<le> r"
  shows "take k (assignData h ds refs) = take k h" "ownedFrom k (assignData h ds refs) ds"
    "length h \<le> length (assignData h ds refs)"
proof -
  from assms(1) obtain d m rs f t where
    ds: "lookup h ds = Some (CDataset d m)" and d: "lookup h d = Some (CRows rs)"
    and rows: "\<forall>r \<in> set rs. isRow h r \<and> k \<le> r" and m: "lookup h m = Some (CMeta f t)"
    and f: "isFields h f" and t: "\<forall>ta. t = Some ta \<longrightarrow> isTypes h ta \<and> k \<le> ta"
    and k: "k \<le> ds" "k \<le> d" "k \<le> m" "k \<le> f"
    by (rule ownedFromE)
  let ?h = "assignData h ds refs"
  note L = assignData_lookup[OF ds, of refs]
  have lt: "ds < length h" using ds by (rule lookup_Some_less)
  have heq: "?h = (h @ [CRows refs])[ds := CDataset (length h) m]"
    using ds by (simp add: assignData_def alloc_def)
  show "take k ?h = take k h"
    unfolding heq using k lt by (simp add: take_update_cancel)
  show "length h \<le> length ?h" unfolding heq by simp
  have same: "\<And>a c. lookup h a = Some c \<Longrightarrow> a \<noteq> ds \<Longrightarrow> lookup ?h a = Some c"
  proof -
    fix a c assume a: "lookup h a = Some c" "a \<noteq> ds"
    have "a \<noteq> length h" using lookup_Some_less[OF a(1)] by simp
    then show "lookup ?h a = Some c" using a by (simp add: L)
  qed
  show "ownedFrom k ?h ds"
  proof (rule ownedFromI)
    show "lookup ?h ds = Some (CDataset (length h) m)" by (simp add: L)
    show "lookup ?h (length h) = Some (CRows refs)" using lt by (simp add: L)
    show "\<forall>r \<in> set refs. isRow ?h r \<and> k \<le> r"
    proof
      fix r assume r: "r \<in> set refs"
      with assms(2) obtain x where x: "lookup h r = Some (CRow x)" by (auto simp: isRow_iff)
      then have "r \<noteq> ds" using ds by auto
      from same[OF x this] assms(2) r show "isRow ?h r \<and> k \<le> r" by (simp add: isRow_iff)
    qed
    have "m \<noteq> ds" using ds m by auto
    from same[OF m this] show "lookup ?h m = Some (CMeta f t)" .
    from f obtain fs where fs: "lookup h f = Some (CFields fs)" by (auto simp: isFields_iff)
    then have "f \<noteq> ds" using ds by auto
    from same[OF fs this] show "isFields ?h f" by (simp add: isFields_iff)
    show "\<forall>ta. t = Some ta \<longrightarrow> isTypes ?h ta \<and> k \<le> ta"
    proof (intro allI impI)
      fix ta assume ta: "t = Some ta"
      with t obtain ts where ts: "lookup h ta = Some (CTypes ts)" by (auto simp: isTypes_iff)
      then have "ta \<noteq> ds" using ds by auto
      from same[OF ts this] t ta show "isTypes ?h ta \<and> k \<le> ta" by (simp add: isTypes_iff)
    qed
    show "k \<le> ds" "k \<le> m" "k \<le> f" using k by simp_all
    show "k \<le> length h" using k lt by simp
  qed
qed

text \<open>Replacing the contents of a row, a field list or a type object by one of the same kind.\<close>

lemma ownedFrom_update_leaf:
  assumes o: "ownedFrom k h ds" and a: "lookup h a = Some c" and ka: "k \<le> a"
    and kind: "(\<exists>x y. c = CRow x \<and> c' = CRow y) \<or> (\<exists>x y. c = CFields x \<and> c' = CFields y)
               \<or> (\<exists>x y. c = CTypes x \<and> c' = CTypes y)"
  shows "take k (h[a := c']) = take k h" "ownedFrom k (h[a := c']) ds"
proof -
  from o obtain d m rs f t where
    ds: "lookup h ds = Some (CDataset d m)" and d: "lookup h d = Some (CRows rs)"
    and rows: "\<forall>r \<in> set rs. isRow h r \<and> k \<le> r" and m: "lookup h m = Some (CMeta f t)"
    and f: "isFields h f" and t: "\<forall>ta. t = Some ta \<longrightarrow> isTypes h ta \<and> k \<le> ta"
    and k: "k \<le> ds" "k \<le> d" "k \<le> m" "k \<le> f"
    by (rule ownedFromE)
  let ?h = "h[a := c']"
  have lt: "a < length h" using a by (rule lookup_Some_less)
  show "take k ?h = take k h" using ka by (simp add: take_update_cancel)
  have L: "\<And>b. lookup ?h b = (if b = a then Some c' else lookup h b)"
    using lt by (simp add: lookup_update)
  have ir: "\<And>b. isRow ?h b = isRow h b"
    using kind a by (auto simp: isRow_iff L)
  have ifl: "\<And>b. isFields ?h b = isFields h b"
    using kind a by (auto simp: isFields_iff L)
  have ity: "\<And>b. isTypes ?h b = isTypes h b"
    using kind a by (auto simp: isTypes_iff L)
  show "ownedFrom k ?h ds"
  proof (rule ownedFromI)
    have "ds \<noteq> a" using kind a ds by auto
    then show "lookup ?h ds = Some (CDataset d m)" using ds by (simp add: L)
    have "d \<noteq> a" using kind a d by auto
    then show "lookup ?h d = Some (CRows rs)" using d by (simp add: L)
    show "\<forall>r \<in> set rs. isRow ?h r \<and> k \<le> r" using rows by (simp add: ir)
    have "m \<noteq> a" using kind a m by auto
    then show "lookup ?h m = Some (CMeta f t)" using m by (simp add: L)
    show "isFields ?h f" using f by (simp add: ifl)
    show "\<forall>ta. t = Some ta \<longrightarrow> isTypes ?h ta \<and> k \<le> ta" using t by (simp add: ity)
    show "k \<le> ds" "k \<le> d" "k \<le> m" "k \<le> f" using k by simp_all
  qed
qed

lemma ownedFrom_changeFields:
  assumes "ownedFrom k h ds"
  shows "take k (changeFields h ds g) = take k h" "ownedFrom k (changeFields h ds g) ds"
    "length (changeFields h ds g) = length h"
proof -
  from assms obtain d m rs f t where
    ds: "lookup h ds = Some (CDataset d m)" and m: "lookup h m = Some (CMeta f t)"
    and f: "isFields h f" and k: "k \<le> f"
    by (rule ownedFromE)
  from f obtain fs where fs: "lookup h f = Some (CFields fs)" by (auto simp: isFields_iff)
  have eq: "changeFields h ds g = h[f := CFields (g fs)]"
    using ds m fs by (simp add: changeFields_def fieldsRef_def metaRef_def fieldsAt_def)
  show "take k (changeFields h ds g) = take k h" "ownedFrom k (changeFields h ds g) ds"
    unfolding eq using ownedFrom_update_leaf[OF assms fs k, of "CFields (g fs)"] by simp_all
  show "length (changeFields h ds g) = length h" unfolding eq by simp
qed

lemma ownedFrom_changeRow:
  assumes "ownedFrom k h ds" "k \<le> a"
  shows "take k (changeRow g h a) = take k h" "ownedFrom k (changeRow g h a) ds"
    "length (changeRow g h a) = length h" "isRow (changeRow g h a) b = isRow h b"
proof -
  have both: "take k (changeRow g h a) = take k h \<and> ownedFrom k (changeRow g h a) ds"
  proof (cases "\<exists>r. lookup h a = Some (CRow r)")
    case True
    then obtain r where r: "lookup h a = Some (CRow r)" by blast
    have eq: "changeRow g h a = h[a := CRow (g r)]" using r by (simp add: changeRow_def)
    show ?thesis
      unfolding eq using ownedFrom_update_leaf[OF assms(1) r assms(2), of "CRow (g r)"] by simp
  next
    case False
    then have eq: "changeRow g h a = h" by (auto simp: changeRow_def split: option.splits cell.splits)
    show ?thesis unfolding eq using assms by simp
  qed
  then show "take k (changeRow g h a) = take k h" "ownedFrom k (changeRow g h a) ds" by simp_all
  show "length (changeRow g h a) = length h"
    by (simp add: changeRow_def split: option.splits cell.splits)
  show "isRow (changeRow g h a) b = isRow h b"
    by (auto simp: changeRow_def isRow_iff lookup_update split: option.splits cell.splits
        dest: lookup_Some_less)
qed

lemma ownedFrom_foldl_changeRow:
  assumes "ownedFrom k h ds" "\<forall>r \<in> set refs. k \<le> r"
  shows "take k (foldl (changeRow g) h refs) = take k h \<and> ownedFrom k (foldl (changeRow g) h refs) ds
    \<and> length (foldl (changeRow g) h refs) = length h
    \<and> (\<forall>b. isRow (foldl (changeRow g) h refs) b = isRow h b)"
  using assms
proof (induction refs arbitrary: h)
  case Nil
  then show ?case by simp
next
  case (Cons a refs)
  have ka: "k \<le> a" using Cons.prems(2) by simp
  note s = ownedFrom_changeRow[OF Cons.prems(1) ka, of g]
  have "\<forall>r \<in> set refs. k \<le> r" using Cons.prems(2) by simp
  from Cons.IH[OF s(2) this] s show ?case by simp
qed


lemma ownedFrom_rowRefs:
  assumes "ownedFrom k h ds"
  shows "\<forall>r \<in> set (rowRefs h ds). isRow h r \<and> k \<le> r" "k \<le> length h"
proof -
  from assms obtain d m rs where
    ds: "lookup h ds = Some (CDataset d m)" and d: "lookup h d = Some (CRows rs)"
    and rows: "\<forall>r \<in> set rs. isRow h r \<and> k \<le> r" and k: "k \<le> ds"
    by (rule ownedFromE)
  show "\<forall>r \<in> set (rowRefs h ds). isRow h r \<and> k \<le> r"
    using ds d rows by (simp add: rowRefs_def dataRef_def rowRefsAt_def)
  show "k \<le> length h" using k lookup_Some_less[OF ds] by simp
qed

lemma insertBy_set: "set (insertBy cmp x ys) = insert x (set ys)"
  by (induction ys) auto

lemma sortBy_set: "set (sortBy cmp xs) = set xs"
  by (induction xs) (simp_all add: sortBy_def insertBy_set)

lemma sliceTo_subset: "set (sliceTo xs n) \<subseteq> set xs"
  by (auto simp: sliceTo_def dest: in_set_takeD)

lemma ownedFrom_transformRemoveRows:
  assumes "ownedFrom k h ds"
  shows "take k (transformRemoveRows h ds cs) = take k h \<and> ownedFrom k (transformRemoveRows h ds cs) ds
    \<and> length h \<le> length (transformRemoveRows h ds cs)"
  unfolding transformRemoveRows_def
  using ownedFrom_assignData[OF assms, of "filter (\<lambda>a. \<not> everyCondition cs (rowAt h a)) (rowRefs h ds)"]
    ownedFrom_rowRefs(1)[OF assms]
  by simp

lemma ownedFrom_executeLimit:
  assumes "ownedFrom k h ds"
  shows "take k (executeLimit h ds p) = take k h \<and> ownedFrom k (executeLimit h ds p) ds
    \<and> length h \<le> length (executeLimit h ds p)"
proof -
  let ?rs = "case count p of None \<Rightarrow> rowRefs h ds | Some n \<Rightarrow> sliceTo (rowRefs h ds) n"
  have "set ?rs \<subseteq> set (rowRefs h ds)"
    using sliceTo_subset[of "rowRefs h ds"] by (cases "count p") auto
  then have "\<forall>r \<in> set ?rs. isRow h r \<and> k \<le> r"
    using ownedFrom_rowRefs(1)[OF assms] by blast
  from ownedFrom_assignData[OF assms this] show ?thesis by (simp add: executeLimit_def)
qed

lemma ownedFrom_transformCreateColumn:
  assumes "ownedFrom k h ds"
  shows "take k (transformCreateColumn h ds p) = take k h \<and> ownedFrom k (transformCreateColumn h ds p) ds
    \<and> length h \<le> length (transformCreateColumn h ds p)"
proof -
  define newRows where "newRows = map (\<lambda>a. objSet (rowAt h a) (newColumn p)
                                (createColumnValue (column1 p) (operator p) (column2 p) (rowAt h a)))
                        (rowRefs h ds)"
  define h1 where "h1 = h @ map CRow newRows"
  define refs where "refs = [length h ..< length h + length newRows]"
  have eq: "transformCreateColumn h ds p = changeFields (assignData h1 ds refs) ds (\<lambda>fs. fs @ [newColumn p])"
    by (simp add: transformCreateColumn_def allocAll_def Let_def newRows_def h1_def refs_def)
  have kl: "k \<le> length h" by (rule ownedFrom_rowRefs(2)[OF assms])
  have e: "extends h h1" by (simp add: h1_def)
  have o1: "ownedFrom k h1 ds" by (rule ownedFrom_extends[OF assms e])
  have t1: "take k h1 = take k h" using kl by (simp add: h1_def)
  have r: "\<forall>r \<in> set refs. isRow h1 r \<and> k \<le> r"
    using kl by (auto simp: refs_def h1_def isRow_iff lookup_append)
  note a = ownedFrom_assignData[OF o1 r]
  note c = ownedFrom_changeFields[OF a(2), of "\<lambda>fs. fs @ [newColumn p]"]
  have "length h \<le> length h1" by (simp add: h1_def)
  then show ?thesis unfolding eq using a c t1 by simp
qed

lemma ownedFrom_transformRenameColumn:
  assumes "ownedFrom k h ds"
  shows "take k (transformRenameColumn h ds p) = take k h \<and> ownedFrom k (transformRenameColumn h ds p) ds
    \<and> length h \<le> length (transformRenameColumn h ds p)"
proof -
  define h1 where "h1 = foldl (changeRow (renameInRow (oldColumn p) (newColumn p))) h (rowRefs h ds)"
  have eq: "transformRenameColumn h ds p
      = changeFields (assignData h1 ds (rowRefs h ds)) ds (replaceFirst (oldColumn p) (newColumn p))"
    by (simp add: transformRenameColumn_def Let_def h1_def)
  note rr = ownedFrom_rowRefs(1)[OF assms]
  then have "\<forall>r \<in> set (rowRefs h ds). k \<le> r" by simp
  from ownedFrom_foldl_changeRow[OF assms this, of "renameInRow (oldColumn p) (newColumn p)"]
  have f: "take k h1 = take k h" "ownedFrom k h1 ds" "length h1 = length h" "\<forall>b. isRow h1 b = isRow h b"
    by (simp_all add: h1_def)
  have r: "\<forall>r \<in> set (rowRefs h ds). isRow h1 r \<and> k \<le> r" using rr f(4) by simp
  note a = ownedFrom_assignData[OF f(2) r]
  note c = ownedFrom_changeFields[OF a(2), of "replaceFirst (oldColumn p) (newColumn p)"]
  show ?thesis unfolding eq using a c f by simp
qed

lemma ownedFrom_executeSort:
  assumes "ownedFrom k h ds"
  shows "take k (executeSort lc h ds p) = take k h \<and> ownedFrom k (executeSort lc h ds p) ds
    \<and> length h \<le> length (executeSort lc h ds p)"
proof -
  from assms obtain d m rs f t where
    ds: "lookup h ds = Some (CDataset d m)" and d: "lookup h d = Some (CRows rs)"
    and rows: "\<forall>r \<in> set rs. isRow h r \<and> k \<le> r" and m: "lookup h m = Some (CMeta f t)"
    and f: "isFields h f" and t: "\<forall>ta. t = Some ta \<longrightarrow> isTypes h ta \<and> k \<le> ta"
    and k: "k \<le> ds" "k \<le> d" "k \<le> m" "k \<le> f"
    by (rule ownedFromE)
  define rs' where "rs' = sortBy (\<lambda>a b. sortComparator lc (column p) (order p) (rowAt h a) (rowAt h b)) rs"
  let ?h = "h[d := CRows rs']"
  have eq: "executeSort lc h ds p = ?h"
    using ds d by (simp add: executeSort_def dataRef_def rowRefsAt_def rs'_def)
  have lt: "d < length h" using d by (rule lookup_Some_less)
  have L: "\<And>b. lookup ?h b = (if b = d then Some (CRows rs') else lookup h b)"
    using lt by (simp add: lookup_update)
  have ir: "\<And>b. isRow ?h b = isRow h b" using d by (auto simp: isRow_iff L)
  have ifl: "\<And>b. isFields ?h b = isFields h b" using d by (auto simp: isFields_iff L)
  have ity: "\<And>b. isTypes ?h b = isTypes h b" using d by (auto simp: isTypes_iff L)
  have o: "ownedFrom k ?h ds"
  proof (rule ownedFromI)
    have "ds \<noteq> d" using d ds by auto
    then show "lookup ?h ds = Some (CDataset d m)" using ds by (simp add: L)
    show "lookup ?h d = Some (CRows rs')" by (simp add: L)
    have "set rs' = set rs" by (simp add: rs'_def sortBy_set)
    then show "\<forall>r \<in> set rs'. isRow ?h r \<and> k \<le> r" using rows by (simp add: ir)
    have "m \<noteq> d" using d m by auto
    then show "lookup ?h m = Some (CMeta f t)" using m by (simp add: L)
    show "isFields ?h f" using f by (simp add: ifl)
    show "\<forall>ta. t = Some ta \<longrightarrow> isTypes ?h ta \<and> k \<le> ta" using t by (simp add: ity)
    show "k \<le> ds" "k \<le> d" "k \<le> m" "k \<le> f" using k by simp_all
  qed
  show ?thesis unfolding eq using o k by (simp add: take_update_cancel)
qed

lemma ownedFrom_allocDataset:
  assumes "allocDataset h rows fs ts = (h', nd)" "k \<le> length h"
  shows "ownedFrom k h' nd"
  using allocDataset_props(3,7)[OF assms(1)] assms(2)
  by (auto simp: ownedFrom_def list_all_iff)

lemma take_take_le:
  assumes "k \<le> n" "take n h' = take n h"
  shows "take k h' = take k h"
proof -
  have "take k h' = take k (take n h')" using assms(1) by (simp add: min_def)
  also have "\<dots> = take k (take n h)" by (simp only: assms(2))
  also have "\<dots> = take k h" using assms(1) by (simp add: min_def)
  finally show ?thesis .
qed

lemma ownedFrom_executeDataStep:
  assumes "ownedFrom k h ds" "executeDataStep lc h ds st = Inr (h', ds')"
  shows "take k h' = take k h \<and> ownedFrom k h' ds' \<and> length h \<le> length h'"
proof -
  note kl = ownedFrom_rowRefs(2)[OF assms(1)]
  consider (c) "stepAction st = ''create_column''" | (r) "stepAction st = ''remove_rows''"
    | (n) "stepAction st = ''rename_column''" | (a) "stepAction st = ''aggregate''"
    | (s) "stepAction st = ''sort''" | (l) "stepAction st = ''limit''"
    | (o) "stepAction st \<notin> {''create_column'', ''remove_rows'', ''rename_column'', ''aggregate'', ''sort'', ''limit''}"
    by blast
  then show ?thesis
  proof cases
    case c
    then show ?thesis using assms(2) ownedFrom_transformCreateColumn[OF assms(1), of "stepParams st"]
      by (auto simp: executeDataStep_def Let_def)
  next
    case r
    then show ?thesis using assms(2) ownedFrom_transformRemoveRows[OF assms(1)]
      by (auto simp: executeDataStep_def Let_def split: option.splits)
  next
    case n
    then show ?thesis using assms(2) ownedFrom_transformRenameColumn[OF assms(1), of "stepParams st"]
      by (auto simp: executeDataStep_def Let_def)
  next
    case a
    then have e: "executeAggregate h ds (stepParams st) = (h', ds')"
      using assms(2) by (auto simp: executeDataStep_def Let_def)
    then have al: "allocDataset h (aggregatedData (stepParams st) (datasetRows h ds))
       [groupBy (stepParams st), aggregateColumnName (aggregation (stepParams st)) (valueColumn (stepParams st))] None
       = (h', ds')" by (simp add: executeAggregate_def)
    have ex: "extends h h'" by (rule allocDataset_props(1)[OF al])
    then have "take (length h) h' = take (length h) h" by (simp add: extends_def)
    then have "take k h' = take k h" by (rule take_take_le[OF kl])
    then show ?thesis using ownedFrom_allocDataset[OF al kl] extends_length[OF ex] by simp
  next
    case s
    then show ?thesis using assms(2) ownedFrom_executeSort[OF assms(1), of lc "stepParams st"]
      by (auto simp: executeDataStep_def Let_def)
  next
    case l
    then show ?thesis using assms(2) ownedFrom_executeLimit[OF assms(1), of "stepParams st"]
      by (auto simp: executeDataStep_def Let_def)
  next
    case o
    then show ?thesis using assms(2) by (auto simp: executeDataStep_def Let_def)
  qed
qed

lemma runPlan_frame:
  assumes "ownedFrom k h td" "runPlan lc h td plan = (h', out)"
  shows "take k h' = take k h \<and> length h \<le> length h'"
  using assms
proof (induction plan arbitrary: h td)
  case Nil
  then show ?case by simp
next
  case (Cons st rest)
  show ?case
  proof (cases "stepAction st = ''visualize''")
    case True
    then show ?thesis using Cons.prems by simp
  next
    case False
    show ?thesis
    proof (cases "executeDataStep lc h td st")
      case (Inl e)
      then show ?thesis using False Cons.prems by simp
    next
      case (Inr x)
      obtain h1 td1 where x: "x = (h1, td1)" by (cases x)
      from Inr x have e: "executeDataStep lc h td st = Inr (h1, td1)" by simp
      note s = ownedFrom_executeDataStep[OF Cons.prems(1) e]
      have r: "runPlan lc h1 td1 rest = (h', out)" using Cons.prems(2) False e by simp
      from Cons.IH[OF _ r] s show ?thesis by simp
    qed
  qed
qed


section \<open>Verification: applyTransformation works on a copy\<close>

lemma ownedFrom_typesRef:
  assumes "ownedFrom k h ds" "typesRef h ds = Some t"
  shows "k \<le> t" "\<exists>ts. lookup h t = Some (CTypes ts)"
proof -
  from assms(1) obtain d m rs f t' where
    ds: "lookup h ds = Some (CDataset d m)" and m: "lookup h m = Some (CMeta f t')"
    and t: "\<forall>ta. t' = Some ta \<longrightarrow> isTypes h ta \<and> k \<le> ta"
    by (rule ownedFromE)
  have "t' = Some t" using assms(2) ds m by (simp add: typesRef_def metaRef_def)
  with t show "k \<le> t" "\<exists>ts. lookup h t = Some (CTypes ts)" by (simp_all add: isTypes_iff)
qed

lemma deepCopy_props:
  assumes "deepCopy h ds = (h0, nd)"
  shows "extends h h0" "ownedFrom (length h) h0 nd" "datasetFields h0 nd = datasetFields h ds"
    "datasetRows h0 nd = map jsonRow (datasetRows h ds)" "datasetTypes h0 nd = datasetTypes h ds"
    "length h \<le> nd"
proof -
  from assms have a: "allocDataset h (map jsonRow (datasetRows h ds)) (datasetFields h ds) (datasetTypes h ds) = (h0, nd)"
    by (simp add: deepCopy_def)
  show "extends h h0" by (rule allocDataset_props(1)[OF a])
  show "ownedFrom (length h) h0 nd" by (rule ownedFrom_allocDataset[OF a]) simp
  show "datasetFields h0 nd = datasetFields h ds" by (rule allocDataset_props(5)[OF a])
  show "datasetRows h0 nd = map jsonRow (datasetRows h ds)" by (rule allocDataset_props(4)[OF a])
  show "datasetTypes h0 nd = datasetTypes h ds" by (rule allocDataset_props(6)[OF a])
  show "length h \<le> nd" by (rule allocDataset_props(2)[OF a])
qed

lemma extends_take: "take (length h) h' = take (length h) h \<Longrightarrow> extends h h'"
  by (simp add: extends_def)

lemma applyTransformation_frame:
  assumes "applyTransformation h cfg src = (h', res)"
  shows "extends h h'"
proof -
  obtain h0 nd where dc: "deepCopy h src = (h0, nd)" by (cases "deepCopy h src")
  note p = deepCopy_props[OF dc]
  let ?k = "length h"
  have t0: "take ?k h0 = take ?k h" using p(1) by (simp add: extends_def)
  consider (r) "action cfg = ''remove_rows''" | (c) "action cfg = ''create_column''"
    | (n) "action cfg = ''rename_column''"
    | (o) "action cfg \<notin> {''remove_rows'', ''create_column'', ''rename_column''}" by blast
  then have "take ?k h' = take ?k h"
  proof cases
    case r
    show ?thesis
    proof (cases "conditions cfg")
      case None
      then show ?thesis using assms dc r t0 by (simp add: applyTransformation_def Let_def)
    next
      case (Some cs)
      then have "h' = transformRemoveRows h0 nd cs"
        using assms dc r by (simp add: applyTransformation_def Let_def)
      then show ?thesis using ownedFrom_transformRemoveRows[OF p(2), of cs] t0 by simp
    qed
  next
    case c
    show ?thesis
    proof (cases "newColumn cfg \<in> set (datasetFields h0 nd)")
      case True
      then show ?thesis using assms dc c t0 by (simp add: applyTransformation_def Let_def)
    next
      case False
      let ?h1 = "transformCreateColumn h0 nd cfg"
      note o = ownedFrom_transformCreateColumn[OF p(2), of cfg]
      show ?thesis
      proof (cases "typesRef ?h1 nd")
        case None
        then have "h' = ?h1" using assms dc c False by (simp add: applyTransformation_def Let_def)
        then show ?thesis using o t0 by simp
      next
        case (Some t)
        then have "h' = ?h1[t := CTypes (objSet (typesAt ?h1 t) (newColumn cfg) ''numerical'')]"
          using assms dc c False by (simp add: applyTransformation_def Let_def)
        moreover have "?k \<le> t" using ownedFrom_typesRef(1)[OF _ Some] o by simp
        ultimately show ?thesis using o t0 by (simp add: take_update_cancel)
      qed
    qed
  next
    case n
    have ne: "action cfg \<noteq> ''remove_rows''" "action cfg \<noteq> ''create_column''" using n by simp_all
    show ?thesis
    proof (cases "oldColumn cfg \<notin> set (datasetFields h0 nd) \<or> newColumn cfg \<in> set (datasetFields h0 nd)")
      case True
      then show ?thesis using assms dc n t0
        by (auto simp: applyTransformation_def Let_def split: if_splits)
    next
      case False
      let ?h1 = "transformRenameColumn h0 nd cfg"
      note o = ownedFrom_transformRenameColumn[OF p(2), of cfg]
      show ?thesis
      proof (cases "typesRef ?h1 nd")
        case None
        then have "h' = ?h1" using assms dc n False by (simp add: applyTransformation_def Let_def)
        then show ?thesis using o t0 by simp
      next
        case (Some t)
        then obtain ts' where "h' = ?h1[t := CTypes ts']"
          using assms dc n False by (auto simp: applyTransformation_def Let_def)
        moreover have "?k \<le> t" using ownedFrom_typesRef(1)[OF _ Some] o by simp
        ultimately show ?thesis using o t0 by (simp add: take_update_cancel)
      qed
    qed
  next
    case o
    then show ?thesis using assms dc t0 by (auto simp: applyTransformation_def Let_def)
  qed
  then show ?thesis by (rule extends_take)
qed

lemma applyTransformation_duplicate:
  assumes "action cfg = ''create_column''" "newColumn cfg \<in> set (datasetFields h src)"
  shows "snd (applyTransformation h cfg src) = Failure (''Column '' @ dq @ newColumn cfg @ dq @ '' already exists.'')"
proof -
  obtain h0 nd where dc: "deepCopy h src = (h0, nd)" by (cases "deepCopy h src")
  note p = deepCopy_props[OF dc]
  show ?thesis using assms dc p(3) by (simp add: applyTransformation_def Let_def)
qed


text \<open>
  C1: when \<^verbatim>\<open>applyTransformation\<close> fails, every object that existed before the call is
  unchanged, so the master dataset has the same field list, the same rows (and row count)
  and the same inferred types; a \<^verbatim>\<open>create_column\<close> whose new column is already in the
  field list fails with the message \<^verbatim>\<open>Column "..." already exists.\<close>; and
  \<^verbatim>\<open>handleTransformation\<close> then leaves the globals of the session as they were.
\<close>

theorem failed_transformation_leaves_master_unchanged:
  "(wfDataset h master \<and> applyTransformation h cfg master = (h', Failure msg) \<longrightarrow>
      extends h h'
      \<and> datasetFields h' master = datasetFields h master
      \<and> length (datasetRows h' master) = length (datasetRows h master)
      \<and> datasetRows h' master = datasetRows h master
      \<and> datasetTypes h' master = datasetTypes h master)
   \<and> (action cfg = ''create_column'' \<and> newColumn cfg \<in> set (datasetFields h master) \<longrightarrow>
        snd (applyTransformation h cfg master)
          = Failure (''Column '' @ dq @ newColumn cfg @ dq @ '' already exists.''))
   \<and> (originalData s = Some master \<and> snd (applyTransformation (store s) cfg master) = Failure msg
       \<longrightarrow> originalData (handleTransformation s cfg) = originalData s
         \<and> activeData (handleTransformation s cfg) = activeData s
         \<and> activeFilters (handleTransformation s cfg) = activeFilters s
         \<and> stagedFilters (handleTransformation s cfg) = stagedFilters s
         \<and> isFilteredState (handleTransformation s cfg) = isFilteredState s)"
proof (intro conjI impI)
  assume a: "wfDataset h master \<and> applyTransformation h cfg master = (h', Failure msg)"
  then have e: "extends h h'" using applyTransformation_frame by blast
  from a have w: "wfDataset h master" by simp
  note x = wfDataset_extends[OF w e]
  show "extends h h'" by (rule e)
  show "datasetFields h' master = datasetFields h master" using x by simp
  show "datasetRows h' master = datasetRows h master" using x by simp
  then show "length (datasetRows h' master) = length (datasetRows h master)" by simp
  show "datasetTypes h' master = datasetTypes h master" using x by simp
next
  assume "action cfg = ''create_column'' \<and> newColumn cfg \<in> set (datasetFields h master)"
  then show "snd (applyTransformation h cfg master)
          = Failure (''Column '' @ dq @ newColumn cfg @ dq @ '' already exists.'')"
    using applyTransformation_duplicate by blast
next
  assume a: "originalData s = Some master \<and> snd (applyTransformation (store s) cfg master) = Failure msg"
  obtain h1 where "applyTransformation (store s) cfg master = (h1, Failure msg)"
    using a by (cases "applyTransformation (store s) cfg master") simp
  then have "handleTransformation s cfg = s \<or> handleTransformation s cfg = s\<lparr>store := h1\<rparr>"
    using a by (simp add: handleTransformation_def)
  then show "originalData (handleTransformation s cfg) = originalData s"
    "activeData (handleTransformation s cfg) = activeData s"
    "activeFilters (handleTransformation s cfg) = activeFilters s"
    "stagedFilters (handleTransformation s cfg) = stagedFilters s"
    "isFilteredState (handleTransformation s cfg) = isFilteredState s"
    by auto
qed

text \<open>
  C1 on the master dataset with the rows \<^verbatim>\<open>{a:"1"}\<close>, \<^verbatim>\<open>{a:"2"}\<close> and a request to create a
  column named \<^verbatim>\<open>a\<close>: the call fails and the master dataset reads as before.
\<close>

theorem failed_transformation_leaves_master_unchanged_witness:
  "snd (applyTransformation
         [CRow [(''a'', JStr ''1'')], CRow [(''a'', JStr ''2'')], CRows [0, 1],
          CFields [''a''], CTypes [(''a'', ''numerical'')], CMeta 3 (Some 4), CDataset 2 5]
         (emptyConfig\<lparr>action := ''create_column'', newColumn := ''a'', column1 := ''a'',
                        operator := ''add'', column2 := ''a''\<rparr>) 6)
     = Failure (''Column '' @ dq @ ''a'' @ dq @ '' already exists.'')
   \<and> datasetRows
        (fst (applyTransformation
               [CRow [(''a'', JStr ''1'')], CRow [(''a'', JStr ''2'')], CRows [0, 1],
                CFields [''a''], CTypes [(''a'', ''numerical'')], CMeta 3 (Some 4), CDataset 2 5]
               (emptyConfig\<lparr>action := ''create_column'', newColumn := ''a'', column1 := ''a'',
                              operator := ''add'', column2 := ''a''\<rparr>) 6)) 6
     = [[(''a'', JStr ''1'')], [(''a'', JStr ''2'')]]
   \<and> datasetFields
        (fst (applyTransformation
               [CRow [(''a'', JStr ''1'')], CRow [(''a'', JStr ''2'')], CRows [0, 1],
                CFields [''a''], CTypes [(''a'', ''numerical'')], CMeta 3 (Some 4), CDataset 2 5]
               (emptyConfig\<lparr>action := ''create_column'', newColumn := ''a'', column1 := ''a'',
                              operator := ''add'', column2 := ''a''\<rparr>) 6)) 6
     = [''a'']"
proof -
  let ?h = "[CRow [(''a'', JStr ''1'')], CRow [(''a'', JStr ''2'')], CRows [0, 1],
          CFields [''a''], CTypes [(''a'', ''numerical'')], CMeta 3 (Some 4), CDataset 2 5]"
  let ?cfg = "emptyConfig\<lparr>action := ''create_column'', newColumn := ''a'', column1 := ''a'',
                        operator := ''add'', column2 := ''a''\<rparr>"
  let ?msg = "''Column '' @ dq @ ''a'' @ dq @ '' already exists.''"
  let ?s = "\<lparr>store = ?h, originalData = Some 6, activeData = Some 6, activeFilters = [],
             stagedFilters = [], isFilteredState = False\<rparr>"
  note t = failed_transformation_leaves_master_unchanged
             [where h = ?h and cfg = ?cfg and master = 6
                and h' = "fst (applyTransformation ?h ?cfg 6)" and msg = ?msg and s = ?s]
  have w: "wfDataset ?h 6" by code_simp
  have f: "snd (applyTransformation ?h ?cfg 6) = Failure ?msg" by code_simp
  then have p1: "applyTransformation ?h ?cfg 6 = (fst (applyTransformation ?h ?cfg 6), Failure ?msg)"
    by (simp add: prod_eq_iff)
  have r0: "datasetRows ?h 6 = [[(''a'', JStr ''1'')], [(''a'', JStr ''2'')]]" by code_simp
  have f0: "datasetFields ?h 6 = [''a'']" by code_simp
  from t w p1 have "datasetRows (fst (applyTransformation ?h ?cfg 6)) 6 = datasetRows ?h 6"
    and "datasetFields (fst (applyTransformation ?h ?cfg 6)) 6 = datasetFields ?h 6"
    by blast+
  with r0 f0 f show ?thesis by simp
qed


section \<open>Verification: a successful transformation resets the filters\<close>

lemma applyFilters_flag: "filterFlagConsistent (applyFilters s)"
  by (auto simp: filterFlagConsistent_def applyFilters_def Let_def
      split: option.splits cell.splits prod.splits)

lemma filterFlagConsistent_handleEvent:
  assumes "filterFlagConsistent s"
  shows "filterFlagConsistent (handleEvent dp lc s ev)"
proof (cases ev)
  case (FileParsed rows fs)
  then show ?thesis using assms
    by (simp add: filterFlagConsistent_def handleSuccessfulParse_def Let_def split: prod.splits)
next
  case ClearData
  then show ?thesis by (simp add: filterFlagConsistent_def clearData_def)
next
  case (ChartDoubleClick c l)
  have "isFilteredState (stageFilter s c l) = isFilteredState s"
    "activeFilters (stageFilter s c l) = activeFilters s"
    using stageFilter_cases[of s c l] by auto
  then show ?thesis using assms ChartDoubleClick by (simp add: filterFlagConsistent_def)
next
  case (RemoveStaged i)
  then show ?thesis using assms by (simp add: filterFlagConsistent_def removeStagedFilter_def)
next
  case ApplyStaged
  then show ?thesis by (simp add: handleApplyStagedFilters_def applyFilters_flag)
next
  case CancelStaging
  then show ?thesis using assms by (simp add: filterFlagConsistent_def handleCancelStaging_def)
next
  case ClearFilters
  then show ?thesis by (simp add: handleClearFilters_def applyFilters_flag)
next
  case (Transformation cfg)
  then show ?thesis using assms
    by (auto simp: filterFlagConsistent_def handleTransformation_def
        split: option.splits prod.splits transformResult.splits)
next
  case (ComplexAnalysis plan)
  then show ?thesis using assms
    by (auto simp: filterFlagConsistent_def handleComplexAnalysis_def executeAnalysisPlan_def Let_def
        split: option.splits prod.splits list.splits)
qed

lemma filterFlagConsistent_foldl:
  "filterFlagConsistent s \<Longrightarrow> filterFlagConsistent (foldl (handleEvent dp lc) s evs)"
  by (induction evs arbitrary: s) (simp_all add: filterFlagConsistent_handleEvent)

lemma filterFlagConsistent_runEvents: "filterFlagConsistent (runEvents dp lc evs)"
  unfolding runEvents_def
  by (rule filterFlagConsistent_foldl) (simp add: filterFlagConsistent_def initialSession_def)

lemma applyTransformation_success:
  assumes "newDataOf (snd (applyTransformation h cfg src)) = Some nd"
  shows "nd = snd (deepCopy h src)" "action cfg \<noteq> ''error''"
    "\<exists>msg. snd (applyTransformation h cfg src) = Success msg nd"
proof -
  obtain h0 nd0 where dc: "deepCopy h src = (h0, nd0)" by (cases "deepCopy h src")
  show "\<exists>msg. snd (applyTransformation h cfg src) = Success msg nd"
    using assms by (cases "snd (applyTransformation h cfg src)") (simp_all add: newDataOf_def)
  show "action cfg \<noteq> ''error''"
  proof
    assume "action cfg = ''error''"
    then have "\<exists>m. snd (applyTransformation h cfg src) = Failure m"
      using dc by (simp add: applyTransformation_def Let_def)
    then show False using assms by (auto simp: newDataOf_def)
  qed
  have "\<exists>m. snd (applyTransformation h cfg src) = Failure m
     \<or> snd (applyTransformation h cfg src) = Success m nd0"
    using dc
    by (simp add: applyTransformation_def Let_def split: option.splits)
  then show "nd = snd (deepCopy h src)" using assms dc by (auto simp: newDataOf_def)
qed

text \<open>
  C9: in every state that a sequence of events can reach, a transformation that
  \<^verbatim>\<open>applyTransformation\<close> reports as successful leaves the master dataset and the active view
  referring to one and the same dataset, which did not exist before; the list of active
  filters is empty and the filtered-state flag is false afterwards.
\<close>

theorem successful_transformation_resets_view_and_filters:
  "originalData (runEvents dp lc evs) = Some od
   \<and> newDataOf (snd (applyTransformation (store (runEvents dp lc evs)) cfg od)) = Some nd
   \<longrightarrow> originalData (runEvents dp lc (evs @ [Transformation cfg])) = Some nd
     \<and> activeData (runEvents dp lc (evs @ [Transformation cfg])) = Some nd
     \<and> activeFilters (runEvents dp lc (evs @ [Transformation cfg])) = []
     \<and> \<not> isFilteredState (runEvents dp lc (evs @ [Transformation cfg]))
     \<and> store (runEvents dp lc (evs @ [Transformation cfg]))
         = fst (applyTransformation (store (runEvents dp lc evs)) cfg od)
     \<and> length (store (runEvents dp lc evs)) \<le> nd"
proof (intro impI)
  let ?s = "runEvents dp lc evs"
  assume a: "originalData ?s = Some od
   \<and> newDataOf (snd (applyTransformation (store ?s) cfg od)) = Some nd"
  then have od: "originalData ?s = Some od"
    and nd: "newDataOf (snd (applyTransformation (store ?s) cfg od)) = Some nd" by simp_all
  note su = applyTransformation_success[OF nd]
  from su(3) obtain msg where m: "snd (applyTransformation (store ?s) cfg od) = Success msg nd" by blast
  obtain h1 where ap: "applyTransformation (store ?s) cfg od = (h1, Success msg nd)"
    using m by (cases "applyTransformation (store ?s) cfg od") simp
  have run: "runEvents dp lc (evs @ [Transformation cfg]) = handleTransformation ?s cfg"
    by (simp add: runEvents_def)
  have inv: "filterFlagConsistent ?s" by (rule filterFlagConsistent_runEvents)
  have ht: "handleTransformation ?s cfg =
      ?s\<lparr>store := h1, originalData := Some nd, activeData := Some nd, activeFilters := [],
          isFilteredState := (if activeFilters ?s \<noteq> [] then False else isFilteredState ?s)\<rparr>"
    using su(2) od ap by (simp add: handleTransformation_def)
  obtain h0 nd0 where dc: "deepCopy (store ?s) od = (h0, nd0)" by (cases "deepCopy (store ?s) od")
  have "length (store ?s) \<le> nd" using su(1) dc deepCopy_props(6)[OF dc] by simp
  moreover have "\<not> (if activeFilters ?s \<noteq> [] then False else isFilteredState ?s)"
    using inv by (auto simp: filterFlagConsistent_def)
  ultimately show "originalData (runEvents dp lc (evs @ [Transformation cfg])) = Some nd
     \<and> activeData (runEvents dp lc (evs @ [Transformation cfg])) = Some nd
     \<and> activeFilters (runEvents dp lc (evs @ [Transformation cfg])) = []
     \<and> \<not> isFilteredState (runEvents dp lc (evs @ [Transformation cfg]))
     \<and> store (runEvents dp lc (evs @ [Transformation cfg]))
         = fst (applyTransformation (store (runEvents dp lc evs)) cfg od)
     \<and> length (store (runEvents dp lc evs)) \<le> nd"
    unfolding run ht using ap by simp
qed

text \<open>
  C9 on a session with one active filter \<^verbatim>\<open>x = a\<close>: renaming the column \<^verbatim>\<open>y\<close> to \<^verbatim>\<open>z\<close> succeeds,
  both globals refer to the new dataset 15, and the filter is gone.
\<close>

theorem successful_transformation_resets_view_and_filters_witness:
  "activeFilters
     (runEvents (\<lambda>x. NaN) (\<lambda>a b. 0)
       [FileParsed [[(''x'', JStr ''a''), (''y'', JStr ''1'')],
                    [(''x'', JStr ''b''), (''y'', JStr ''2'')]] [''x'', ''y''],
        ChartDoubleClick (Some ''x'') ''a'', ApplyStaged])
     = [\<lparr>fColumn = ''x'', fValue = ''a''\<rparr>]
   \<and> originalData
        (runEvents (\<lambda>x. NaN) (\<lambda>a b. 0)
          ([FileParsed [[(''x'', JStr ''a''), (''y'', JStr ''1'')],
                       [(''x'', JStr ''b''), (''y'', JStr ''2'')]] [''x'', ''y''],
            ChartDoubleClick (Some ''x'') ''a'', ApplyStaged]
           @ [Transformation (emptyConfig\<lparr>action := ''rename_column'', oldColumn := ''y'',
                                             newColumn := ''z''\<rparr>)]))
      = Some 15
   \<and> activeData
        (runEvents (\<lambda>x. NaN) (\<lambda>a b. 0)
          ([FileParsed [[(''x'', JStr ''a''), (''y'', JStr ''1'')],
                       [(''x'', JStr ''b''), (''y'', JStr ''2'')]] [''x'', ''y''],
            ChartDoubleClick (Some ''x'') ''a'', ApplyStaged]
           @ [Transformation (emptyConfig\<lparr>action := ''rename_column'', oldColumn := ''y'',
                                             newColumn := ''z''\<rparr>)]))
      = Some 15
   \<and> activeFilters
        (runEvents (\<lambda>x. NaN) (\<lambda>a b. 0)
          ([FileParsed [[(''x'', JStr ''a''), (''y'', JStr ''1'')],
                       [(''x'', JStr ''b''), (''y'', JStr ''2'')]] [''x'', ''y''],
            ChartDoubleClick (Some ''x'') ''a'', ApplyStaged]
           @ [Transformation (emptyConfig\<lparr>action := ''rename_column'', oldColumn := ''y'',
                                             newColumn := ''z''\<rparr>)]))
      = []
   \<and> \<not> isFilteredState
        (runEvents (\<lambda>x. NaN) (\<lambda>a b. 0)
          ([FileParsed [[(''x'', JStr ''a''), (''y'', JStr ''1'')],
                       [(''x'', JStr ''b''), (''y'', JStr ''2'')]] [''x'', ''y''],
            ChartDoubleClick (Some ''x'') ''a'', ApplyStaged]
           @ [Transformation (emptyConfig\<lparr>action := ''rename_column'', oldColumn := ''y'',
                                             newColumn := ''z''\<rparr>)]))"
proof -
  let ?evs = "[FileParsed [[(''x'', JStr ''a''), (''y'', JStr ''1'')],
                    [(''x'', JStr ''b''), (''y'', JStr ''2'')]] [''x'', ''y''],
        ChartDoubleClick (Some ''x'') ''a'', ApplyStaged]"
  let ?cfg = "emptyConfig\<lparr>action := ''rename_column'', oldColumn := ''y'', newColumn := ''z''\<rparr>"
  let ?dp = "\<lambda>x :: string. NaN" and ?lc = "\<lambda>(a :: string) (b :: string). 0 :: int"
  note t = successful_transformation_resets_view_and_filters
             [where dp = ?dp and lc = ?lc and evs = ?evs and cfg = ?cfg and od = 6 and nd = 15]
  have p: "originalData (runEvents ?dp ?lc ?evs) = Some 6
     \<and> newDataOf (snd (applyTransformation (store (runEvents ?dp ?lc ?evs)) ?cfg 6)) = Some 15"
    by code_simp
  have a: "activeFilters (runEvents ?dp ?lc ?evs) = [\<lparr>fColumn = ''x'', fValue = ''a''\<rparr>]"
    by code_simp
  from t p a show ?thesis by blast
qed


section \<open>Verification: copies and sharing\<close>

lemma wfDataset_cells_less:
  assumes "wfDataset h ds"
  shows "\<forall>a \<in> set (datasetCells h ds). a < length h"
proof -
  from assms obtain d m where ds: "lookup h ds = Some (CDataset d m)" and wr: "wfRows h d" and wm: "wfMeta h m"
    unfolding wfDataset_iff by blast
  from wr obtain rs where d: "lookup h d = Some (CRows rs)" and rows: "\<forall>r \<in> set rs. isRow h r"
    unfolding wfRows_iff by blast
  from wm obtain f t where m: "lookup h m = Some (CMeta f t)" and f: "isFields h f"
    and t: "\<forall>ta. t = Some ta \<longrightarrow> isTypes h ta"
    unfolding wfMeta_iff by blast
  have r: "\<forall>r \<in> set rs. r < length h" using rows by (auto simp: isRow_iff dest: lookup_Some_less)
  have fl: "f < length h" using f by (auto simp: isFields_iff dest: lookup_Some_less)
  have tl: "\<forall>ta. t = Some ta \<longrightarrow> ta < length h" using t by (auto simp: isTypes_iff dest: lookup_Some_less)
  show ?thesis
    using ds d m r fl tl lookup_Some_less[OF ds] lookup_Some_less[OF d] lookup_Some_less[OF m]
    by (cases t) (auto simp: datasetCells_def rowRefsAt_def)
qed

lemma write_outside_keeps_dataset:
  assumes "wfDataset h ds" "extends h h0" "length h \<le> a"
  shows "datasetRows (h0[a := c]) ds = datasetRows h ds" "datasetFields (h0[a := c]) ds = datasetFields h ds"
    "datasetTypes (h0[a := c]) ds = datasetTypes h ds"
  using wfDataset_extends[OF assms(1) extends_update[OF assms(2,3), of c]] by simp_all

lemma filterStep_eq:
  "filterStep (h, d) f = (h @ [CRows (filter (\<lambda>a. toString (rowGet (rowAt h a) (fColumn f)) = fValue f)
                               (rowRefsAt h d))], length h)"
  by (simp add: filterStep_def alloc_def)

lemma foldl_filterStep:
  "foldl filterStep (h, d) fs = (h1, d1) \<Longrightarrow>
     extends h h1 \<and> set (rowRefsAt h1 d1) \<subseteq> set (rowRefsAt h d)
     \<and> (fs \<noteq> [] \<longrightarrow> length h \<le> d1 \<and> d1 < length h1 \<and> (\<exists>rs. lookup h1 d1 = Some (CRows rs)))"
proof (induction fs arbitrary: h d)
  case Nil
  then show ?case by simp
next
  case (Cons f fs)
  let ?rs = "filter (\<lambda>a. toString (rowGet (rowAt h a) (fColumn f)) = fValue f) (rowRefsAt h d)"
  let ?h = "h @ [CRows ?rs]"
  have st: "foldl filterStep (?h, length h) fs = (h1, d1)"
    using Cons.prems by (simp add: filterStep_eq)
  note ih = Cons.IH[OF st]
  have e: "extends h ?h" by simp
  have r0: "rowRefsAt ?h (length h) = ?rs" by (simp add: rowRefsAt_def lookup_append1)
  have ex: "extends h h1" using extends_trans[OF e] ih by blast
  have sub: "set (rowRefsAt h1 d1) \<subseteq> set (rowRefsAt h d)" using ih r0 by auto
  have "length h \<le> d1 \<and> d1 < length h1 \<and> (\<exists>rs. lookup h1 d1 = Some (CRows rs))"
  proof (cases "fs = []")
    case True
    then show ?thesis using st by (auto simp: lookup_append1)
  next
    case False
    then show ?thesis using ih by auto
  qed
  then show ?case using ex sub by simp
qed

lemma applyFilters_shares:
  assumes af: "activeFilters s \<noteq> []" and od: "originalData s = Some master"
    and w: "wfDataset (store s) master"
  shows "\<exists>a d m. activeData (applyFilters s) = Some a
      \<and> lookup (store (applyFilters s)) a = Some (CDataset d m)
      \<and> length (store s) \<le> a \<and> length (store s) \<le> d
      \<and> metaRef (store s) master = Some m
      \<and> set (rowRefs (store (applyFilters s)) a) \<subseteq> set (rowRefs (store s) master)
      \<and> extends (store s) (store (applyFilters s))"
proof -
  let ?h = "store s"
  from w obtain d m where ds: "lookup ?h master = Some (CDataset d m)"
    unfolding wfDataset_iff by blast
  obtain h1 d1 where fo: "foldl filterStep (?h, d) (activeFilters s) = (h1, d1)"
    by (cases "foldl filterStep (?h, d) (activeFilters s)")
  note p = foldl_filterStep[OF fo]
  from p af have d1: "length ?h \<le> d1" "d1 < length h1" by simp_all
  have ap: "applyFilters s = s\<lparr>store := h1 @ [CDataset d1 m], activeData := Some (length h1), isFilteredState := True\<rparr>"
    using af od ds fo by (simp add: applyFilters_def alloc_def)
  have e1: "extends ?h h1" using p by simp
  have l: "length ?h \<le> length h1" by (rule extends_length[OF e1])
  have rr: "rowRefs (h1 @ [CDataset d1 m]) (length h1) = rowRefsAt h1 d1"
    using d1 by (simp add: rowRefs_def dataRef_def rowRefsAt_def lookup_append1)
  have r0: "rowRefs ?h master = rowRefsAt ?h d" using ds by (simp add: rowRefs_def dataRef_def)
  have "extends ?h (h1 @ [CDataset d1 m])" by (rule extends_trans[OF e1]) simp
  then show ?thesis
    unfolding ap using ds d1 l p rr r0
    by (simp add: lookup_append1 metaRef_def)
qed

lemma executeAnalysisPlan_frame:
  assumes "executeAnalysisPlan lc s plan = (s', out)"
  shows "extends (store s) (store s')" "originalData s' = originalData s" "activeData s' = activeData s"
    "activeFilters s' = activeFilters s" "stagedFilters s' = stagedFilters s"
proof -
  have "extends (store s) (store s') \<and> originalData s' = originalData s \<and> activeData s' = activeData s
    \<and> activeFilters s' = activeFilters s \<and> stagedFilters s' = stagedFilters s"
  proof (cases "activeData s")
    case None
    then show ?thesis using assms by (auto simp: executeAnalysisPlan_def split: list.splits)
  next
    case (Some ad)
    obtain h0 td where dc: "deepCopy (store s) ad = (h0, td)" by (cases "deepCopy (store s) ad")
    obtain h1 o1 where rp: "runPlan lc h0 td plan = (h1, o1)" by (cases "runPlan lc h0 td plan")
    note p = deepCopy_props[OF dc]
    note f = runPlan_frame[OF p(2) rp]
    have "take (length (store s)) h1 = store s" using f p(1) by (simp add: extends_def)
    then have "extends (store s) h1" by (simp add: extends_def)
    moreover have "s' = s\<lparr>store := h1\<rparr>" using assms Some dc rp by (simp add: executeAnalysisPlan_def)
    ultimately show ?thesis by simp
  qed
  then show "extends (store s) (store s')" "originalData s' = originalData s" "activeData s' = activeData s"
    "activeFilters s' = activeFilters s" "stagedFilters s' = stagedFilters s" by simp_all
qed


text \<open>A plan without an \<^verbatim>\<open>aggregate\<close> step writes to no built-in object.\<close>

lemma planWrites_without_aggregate:
  "\<forall>st \<in> set plan. stepAction st \<noteq> ''aggregate'' \<Longrightarrow> \<not> planWrites lc h tempData plan"
proof (induction plan arbitrary: h tempData)
  case Nil
  then show ?case by simp
next
  case (Cons st rest)
  then show ?case by (auto split: sum.splits)
qed

text \<open>
  C5, as the specification words it, fails for the active view. On the master dataset with
  the rows \<^verbatim>\<open>{x:"a"}\<close>, \<^verbatim>\<open>{x:"b"}\<close> and the active filter \<^verbatim>\<open>x = a\<close>, \<^verbatim>\<open>applyFilters\<close> makes the
  dataset 8 the active view; its only row is the row object 0 of the master dataset and its
  \<^verbatim>\<open>meta\<close> is the master's, so that overwriting that row through the view changes the rows
  of the master dataset 6.
\<close>

theorem active_view_shares_rows_with_master:
  "activeData
     (applyFilters
       \<lparr>store = [CRow [(''x'', JStr ''a'')], CRow [(''x'', JStr ''b'')], CRows [0, 1],
                 CFields [''x''], CTypes [(''x'', ''string'')], CMeta 3 (Some 4), CDataset 2 5],
        originalData = Some 6, activeData = Some 6,
        activeFilters = [\<lparr>fColumn = ''x'', fValue = ''a''\<rparr>], stagedFilters = [],
        isFilteredState = False\<rparr>) = Some 8
   \<and> rowRefs
        (store (applyFilters
          \<lparr>store = [CRow [(''x'', JStr ''a'')], CRow [(''x'', JStr ''b'')], CRows [0, 1],
                    CFields [''x''], CTypes [(''x'', ''string'')], CMeta 3 (Some 4), CDataset 2 5],
           originalData = Some 6, activeData = Some 6,
           activeFilters = [\<lparr>fColumn = ''x'', fValue = ''a''\<rparr>], stagedFilters = [],
           isFilteredState = False\<rparr>)) 8 = [0]
   \<and> metaRef
        (store (applyFilters
          \<lparr>store = [CRow [(''x'', JStr ''a'')], CRow [(''x'', JStr ''b'')], CRows [0, 1],
                    CFields [''x''], CTypes [(''x'', ''string'')], CMeta 3 (Some 4), CDataset 2 5],
           originalData = Some 6, activeData = Some 6,
           activeFilters = [\<lparr>fColumn = ''x'', fValue = ''a''\<rparr>], stagedFilters = [],
           isFilteredState = False\<rparr>)) 8 = Some 5
   \<and> datasetRows
        (store (applyFilters
          \<lparr>store = [CRow [(''x'', JStr ''a'')], CRow [(''x'', JStr ''b'')], CRows [0, 1],
                    CFields [''x''], CTypes [(''x'', ''string'')], CMeta 3 (Some 4), CDataset 2 5],
           originalData = Some 6, activeData = Some 6,
           activeFilters = [\<lparr>fColumn = ''x'', fValue = ''a''\<rparr>], stagedFilters = [],
           isFilteredState = False\<rparr>)) 6
       = [[(''x'', JStr ''a'')], [(''x'', JStr ''b'')]]
   \<and> datasetRows
        ((store (applyFilters
          \<lparr>store = [CRow [(''x'', JStr ''a'')], CRow [(''x'', JStr ''b'')], CRows [0, 1],
                    CFields [''x''], CTypes [(''x'', ''string'')], CMeta 3 (Some 4), CDataset 2 5],
           originalData = Some 6, activeData = Some 6,
           activeFilters = [\<lparr>fColumn = ''x'', fValue = ''a''\<rparr>], stagedFilters = [],
           isFilteredState = False\<rparr>))[0 := CRow [(''x'', JStr ''changed'')]]) 6
       = [[(''x'', JStr ''changed'')], [(''x'', JStr ''b'')]]"
  by code_simp

text \<open>
  C5, amended. The scratch copy of plan execution consists of objects that did not exist
  before the copy was made and shares none with the master dataset (or any other dataset
  that existed): overwriting any object of the copy leaves the rows, fields and inferred
  types of the master dataset as they were, and so does the execution of a plan, which
  leaves both globals unchanged too, as long as none of its \<^verbatim>\<open>aggregate\<close> steps writes to a
  built-in object (which a group key that names a property of \<^verbatim>\<open>Object.prototype\<close> brings
  about; nothing is said of such a plan). The active view that \<^verbatim>\<open>applyFilters\<close> builds for a
  non-empty list of filters is a new dataset object with a new array of rows, but its row
  objects are row objects of the master dataset and its \<^verbatim>\<open>meta\<close> object (fields, inferred
  types) is the master's; with no active filter the active view is the master dataset.
\<close>

theorem scratch_copy_disjoint_from_master_active_view_shares:
  "(wfDataset h master \<and> deepCopy h active = (h0, tempData) \<longrightarrow>
       ownedFrom (length h) h0 tempData
       \<and> set (datasetCells h0 tempData) \<inter> set (datasetCells h0 master) = {}
       \<and> (\<forall>a \<in> set (datasetCells h0 tempData). \<forall>c.
             datasetRows (h0[a := c]) master = datasetRows h master
             \<and> datasetFields (h0[a := c]) master = datasetFields h master
             \<and> datasetTypes (h0[a := c]) master = datasetTypes h master))
   \<and> (wfDataset (store s) master \<and> \<not> analysisWrites lc s plan
        \<and> executeAnalysisPlan lc s plan = (s', out) \<longrightarrow>
        datasetRows (store s') master = datasetRows (store s) master
        \<and> datasetFields (store s') master = datasetFields (store s) master
        \<and> datasetTypes (store s') master = datasetTypes (store s) master
        \<and> originalData s' = originalData s \<and> activeData s' = activeData s)
   \<and> (activeFilters s \<noteq> [] \<and> originalData s = Some master \<and> wfDataset (store s) master \<longrightarrow>
        (\<exists>a d m. activeData (applyFilters s) = Some a
           \<and> lookup (store (applyFilters s)) a = Some (CDataset d m)
           \<and> length (store s) \<le> a \<and> length (store s) \<le> d
           \<and> metaRef (store s) master = Some m
           \<and> set (rowRefs (store (applyFilters s)) a) \<subseteq> set (rowRefs (store s) master)
           \<and> extends (store s) (store (applyFilters s))))
   \<and> (activeFilters s2 = [] \<longrightarrow> activeData (applyFilters s2) = originalData s2)"
proof -
  have A: "wfDataset h master \<and> deepCopy h active = (h0, tempData) \<longrightarrow>
       ownedFrom (length h) h0 tempData
       \<and> set (datasetCells h0 tempData) \<inter> set (datasetCells h0 master) = {}
       \<and> (\<forall>a \<in> set (datasetCells h0 tempData). \<forall>c.
             datasetRows (h0[a := c]) master = datasetRows h master
             \<and> datasetFields (h0[a := c]) master = datasetFields h master
             \<and> datasetTypes (h0[a := c]) master = datasetTypes h master)"
  proof (intro impI)
    assume a: "wfDataset h master \<and> deepCopy h active = (h0, tempData)"
    then have w: "wfDataset h master" and dc: "deepCopy h active = (h0, tempData)" by simp_all
    note p = deepCopy_props[OF dc]
    have o: "ownedFrom (length h) h0 tempData" by (rule p(2))
    have ge: "\<forall>a \<in> set (datasetCells h0 tempData). length h \<le> a"
      using o by (simp add: ownedFrom_def list_all_iff)
    have "datasetCells h0 master = datasetCells h master"
      using wfDataset_extends[OF w p(1)] by simp
    then have lt: "\<forall>a \<in> set (datasetCells h0 master). a < length h"
      using wfDataset_cells_less[OF w] by simp
    have dj: "set (datasetCells h0 tempData) \<inter> set (datasetCells h0 master) = {}"
      using ge lt by fastforce
    have wr: "\<forall>a \<in> set (datasetCells h0 tempData). \<forall>c.
             datasetRows (h0[a := c]) master = datasetRows h master
             \<and> datasetFields (h0[a := c]) master = datasetFields h master
             \<and> datasetTypes (h0[a := c]) master = datasetTypes h master"
      using ge write_outside_keeps_dataset[OF w p(1)] by blast
    show "ownedFrom (length h) h0 tempData
       \<and> set (datasetCells h0 tempData) \<inter> set (datasetCells h0 master) = {}
       \<and> (\<forall>a \<in> set (datasetCells h0 tempData). \<forall>c.
             datasetRows (h0[a := c]) master = datasetRows h master
             \<and> datasetFields (h0[a := c]) master = datasetFields h master
             \<and> datasetTypes (h0[a := c]) master = datasetTypes h master)"
      using o dj wr by blast
  qed
  have B: "wfDataset (store s) master \<and> \<not> analysisWrites lc s plan
        \<and> executeAnalysisPlan lc s plan = (s', out) \<longrightarrow>
        datasetRows (store s') master = datasetRows (store s) master
        \<and> datasetFields (store s') master = datasetFields (store s) master
        \<and> datasetTypes (store s') master = datasetTypes (store s) master
        \<and> originalData s' = originalData s \<and> activeData s' = activeData s"
  proof (intro impI)
    assume a: "wfDataset (store s) master \<and> \<not> analysisWrites lc s plan
        \<and> executeAnalysisPlan lc s plan = (s', out)"
    then have w: "wfDataset (store s) master" and e: "executeAnalysisPlan lc s plan = (s', out)"
      by simp_all
    note f = executeAnalysisPlan_frame[OF e]
    note x = wfDataset_extends[OF w f(1)]
    show "datasetRows (store s') master = datasetRows (store s) master
        \<and> datasetFields (store s') master = datasetFields (store s) master
        \<and> datasetTypes (store s') master = datasetTypes (store s) master
        \<and> originalData s' = originalData s \<and> activeData s' = activeData s"
      using x f by simp
  qed
  have C: "activeFilters s \<noteq> [] \<and> originalData s = Some master \<and> wfDataset (store s) master \<longrightarrow>
        (\<exists>a d m. activeData (applyFilters s) = Some a
           \<and> lookup (store (applyFilters s)) a = Some (CDataset d m)
           \<and> length (store s) \<le> a \<and> length (store s) \<le> d
           \<and> metaRef (store s) master = Some m
           \<and> set (rowRefs (store (applyFilters s)) a) \<subseteq> set (rowRefs (store s) master)
           \<and> extends (store s) (store (applyFilters s)))"
    using applyFilters_shares by blast
  have D: "activeFilters s2 = [] \<longrightarrow> activeData (applyFilters s2) = originalData s2"
    by (simp add: applyFilters_def)
  show ?thesis by (intro conjI A B C D)
qed


text \<open>
  The amended C5 on the master dataset 6 with the rows \<^verbatim>\<open>{x:"a"}\<close>, \<^verbatim>\<open>{x:"b"}\<close>: the copy has its
  first row at 7, and emptying that row leaves the master's rows as they were; so does a
  plan that aggregates, sorts and visualizes, none of whose group keys names an inherited
  property; with the filter \<^verbatim>\<open>x = a\<close> the active view keeps a subset of
  the master's row objects; without filters it is the master dataset.
\<close>

theorem scratch_copy_disjoint_from_master_active_view_shares_witness:
  "datasetRows
     ((fst (deepCopy
             [CRow [(''x'', JStr ''a'')], CRow [(''x'', JStr ''b'')], CRows [0, 1],
              CFields [''x''], CTypes [(''x'', ''string'')], CMeta 3 (Some 4), CDataset 2 5] 6))
        [7 := CRow []]) 6
     = [[(''x'', JStr ''a'')], [(''x'', JStr ''b'')]]
   \<and> datasetRows
        (store (fst (executeAnalysisPlan (\<lambda>a b. 0)
           \<lparr>store = [CRow [(''x'', JStr ''a'')], CRow [(''x'', JStr ''b'')], CRows [0, 1],
                     CFields [''x''], CTypes [(''x'', ''string'')], CMeta 3 (Some 4), CDataset 2 5],
            originalData = Some 6, activeData = Some 6,
            activeFilters = [\<lparr>fColumn = ''x'', fValue = ''a''\<rparr>], stagedFilters = [],
            isFilteredState = False\<rparr>
           [\<lparr>stepAction = ''aggregate'', stepExplanation = ''count by x'',
             stepParams = emptyParams\<lparr>groupBy := ''x'', aggregation := ''count''\<rparr>\<rparr>,
            \<lparr>stepAction = ''sort'', stepExplanation = ''sort by x'',
             stepParams = emptyParams\<lparr>column := ''x'', order := ''descending''\<rparr>\<rparr>,
            \<lparr>stepAction = ''visualize'', stepExplanation = ''show'',
             stepParams = emptyParams\<lparr>chartType := ''bar'', xAxisColumn := Some ''x'',
                                       yAxisColumn := Some ''x''\<rparr>\<rparr>]))) 6
     = [[(''x'', JStr ''a'')], [(''x'', JStr ''b'')]]
   \<and> activeData
        (applyFilters
           \<lparr>store = [CRow [(''x'', JStr ''a'')], CRow [(''x'', JStr ''b'')], CRows [0, 1],
                     CFields [''x''], CTypes [(''x'', ''string'')], CMeta 3 (Some 4), CDataset 2 5],
            originalData = Some 6, activeData = Some 6,
            activeFilters = [], stagedFilters = [], isFilteredState = False\<rparr>) = Some 6
   \<and> set (rowRefs
        (store (applyFilters
           \<lparr>store = [CRow [(''x'', JStr ''a'')], CRow [(''x'', JStr ''b'')], CRows [0, 1],
                     CFields [''x''], CTypes [(''x'', ''string'')], CMeta 3 (Some 4), CDataset 2 5],
            originalData = Some 6, activeData = Some 6,
            activeFilters = [\<lparr>fColumn = ''x'', fValue = ''a''\<rparr>], stagedFilters = [],
            isFilteredState = False\<rparr>)) 8) \<subseteq> {0, 1}"
proof -
  let ?h = "[CRow [(''x'', JStr ''a'')], CRow [(''x'', JStr ''b'')], CRows [0, 1],
              CFields [''x''], CTypes [(''x'', ''string'')], CMeta 3 (Some 4), CDataset 2 5]"
  let ?s = "\<lparr>store = ?h, originalData = Some 6, activeData = Some 6,
            activeFilters = [\<lparr>fColumn = ''x'', fValue = ''a''\<rparr>], stagedFilters = [],
            isFilteredState = False\<rparr>"
  let ?s2 = "\<lparr>store = ?h, originalData = Some 6, activeData = Some 6,
            activeFilters = [], stagedFilters = [], isFilteredState = False\<rparr>"
  let ?lc = "\<lambda>(a :: string) (b :: string). 0 :: int"
  let ?plan = "[\<lparr>stepAction = ''aggregate'', stepExplanation = ''count by x'',
             stepParams = emptyParams\<lparr>groupBy := ''x'', aggregation := ''count''\<rparr>\<rparr>,
            \<lparr>stepAction = ''sort'', stepExplanation = ''sort by x'',
             stepParams = emptyParams\<lparr>column := ''x'', order := ''descending''\<rparr>\<rparr>,
            \<lparr>stepAction = ''visualize'', stepExplanation = ''show'',
             stepParams = emptyParams\<lparr>chartType := ''bar'', xAxisColumn := Some ''x'',
                                       yAxisColumn := Some ''x''\<rparr>\<rparr>]"
  note t = scratch_copy_disjoint_from_master_active_view_shares
             [where h = ?h and master = 6 and active = 6 and ?h0.0 = "fst (deepCopy ?h 6)"
                and tempData = "snd (deepCopy ?h 6)" and s = ?s and lc = ?lc and plan = ?plan
                and s' = "fst (executeAnalysisPlan ?lc ?s ?plan)"
                and out = "snd (executeAnalysisPlan ?lc ?s ?plan)" and ?s2.0 = ?s2]
  have w: "wfDataset ?h 6" by code_simp
  have r0: "datasetRows ?h 6 = [[(''x'', JStr ''a'')], [(''x'', JStr ''b'')]]" by code_simp
  have c7: "7 \<in> set (datasetCells (fst (deepCopy ?h 6)) (snd (deepCopy ?h 6)))" by code_simp
  have pa: "wfDataset ?h 6 \<and> deepCopy ?h 6 = (fst (deepCopy ?h 6), snd (deepCopy ?h 6))"
    using w by simp
  have nw: "\<not> analysisWrites ?lc ?s ?plan" by code_simp
  have pb: "wfDataset (store ?s) 6 \<and> \<not> analysisWrites ?lc ?s ?plan
      \<and> executeAnalysisPlan ?lc ?s ?plan
      = (fst (executeAnalysisPlan ?lc ?s ?plan), snd (executeAnalysisPlan ?lc ?s ?plan))"
    using w nw by simp
  have pc: "activeFilters ?s \<noteq> [] \<and> originalData ?s = Some 6 \<and> wfDataset (store ?s) 6"
    using w by simp
  have pd: "activeFilters ?s2 = []" by simp
  have a8: "activeData (applyFilters ?s) = Some 8" by code_simp
  have rr: "set (rowRefs ?h 6) = {0, 1}" by code_simp
  from t pa c7 have "datasetRows ((fst (deepCopy ?h 6))[7 := CRow []]) 6 = datasetRows ?h 6"
    by blast
  then have g1: "datasetRows ((fst (deepCopy ?h 6))[7 := CRow []]) 6
      = [[(''x'', JStr ''a'')], [(''x'', JStr ''b'')]]" using r0 by simp
  from t pb have "datasetRows (store (fst (executeAnalysisPlan ?lc ?s ?plan))) 6 = datasetRows (store ?s) 6"
    by blast
  then have g2: "datasetRows (store (fst (executeAnalysisPlan ?lc ?s ?plan))) 6
      = [[(''x'', JStr ''a'')], [(''x'', JStr ''b'')]]" using r0 by simp
  from t pd have g3: "activeData (applyFilters ?s2) = Some 6" by simp
  from t pc obtain a where "activeData (applyFilters ?s) = Some a"
    "set (rowRefs (store (applyFilters ?s)) a) \<subseteq> set (rowRefs (store ?s) 6)" by blast
  with a8 rr have g4: "set (rowRefs (store (applyFilters ?s)) 8) \<subseteq> {0, 1}" by simp
  show ?thesis using g1 g2 g3 g4 by blast
qed


section \<open>Verification: aggregation\<close>

lemma map_of_insertIndexKey:
  "map_of obj k = None \<Longrightarrow>
   map_of (insertIndexKey i k v obj) k' = (if k' = k then Some v else map_of obj k')"
  by (induction obj) (auto split: if_splits)

lemma map_of_replace:
  "map_of (map (\<lambda>(k', v'). if k' = k then (k', v) else (k', v')) obj) k'
     = (if k' = k then (case map_of obj k of None \<Rightarrow> None | Some x \<Rightarrow> Some v) else map_of obj k')"
  by (induction obj) (auto split: option.splits)

lemma map_of_objSet: "map_of (objSet obj k v) k' = (if k' = k then Some v else map_of obj k')"
proof (cases "map_of obj k")
  case None
  then show ?thesis
    by (auto simp: objSet_def map_of_insertIndexKey map_add_def split: option.splits)
next
  case (Some x)
  then show ?thesis by (simp add: objSet_def map_of_replace)
qed

lemma keys_insertIndexKey: "fst ` set (insertIndexKey i k v obj) = insert k (fst ` set obj)"
proof (induction obj)
  case Nil
  then show ?case by simp
next
  case (Cons a obj)
  obtain k1 v1 where a: "a = (k1, v1)" by (cases a)
  show ?case using Cons a by (cases "isArrayIndex k1 \<and> digitsVal k1 < i") auto
qed

lemma distinct_insertIndexKey:
  "k \<notin> fst ` set obj \<Longrightarrow> distinct (map fst obj) \<Longrightarrow> distinct (map fst (insertIndexKey i k v obj))"
proof (induction obj)
  case Nil
  then show ?case by simp
next
  case (Cons a obj)
  obtain k1 v1 where a: "a = (k1, v1)" by (cases a)
  have "k1 \<notin> fst ` set (insertIndexKey i k v obj)"
    using Cons.prems a by (auto simp: keys_insertIndexKey)
  then show ?case using Cons a by (cases "isArrayIndex k1 \<and> digitsVal k1 < i") auto
qed

lemma keys_replace:
  "map (fst \<circ> (\<lambda>(k', v'). if k' = k then (k', v) else (k', v'))) obj = map fst obj"
  by (induction obj) auto

lemma distinct_objSet: "distinct (map fst obj) \<Longrightarrow> distinct (map fst (objSet obj k v))"
proof (cases "map_of obj k")
  case None
  assume d: "distinct (map fst obj)"
  have nk: "k \<notin> fst ` set obj" using None by (simp add: map_of_eq_None_iff)
  show ?thesis using None d nk by (auto simp: objSet_def distinct_insertIndexKey)
next
  case (Some x)
  assume "distinct (map fst obj)"
  then show ?thesis using Some by (simp add: objSet_def keys_replace)
qed

lemma sumOfParseable_snoc:
  "sumOfParseable vc (rows @ [r]) =
     (if isNaN (cellNumber vc r) then sumOfParseable vc rows
      else numAdd (sumOfParseable vc rows) (cellNumber vc r))"
  by (simp add: sumOfParseable_def)

lemma rowsOfGroup_snoc:
  "rowsOfGroup gb k (rows @ [r]) =
     rowsOfGroup gb k rows
     @ (if rowGet r gb \<noteq> JUndef \<and> rowGet r gb \<noteq> JNull \<and> toString (rowGet r gb) = k then [r] else [])"
  by (simp add: rowsOfGroup_def)

lemma sumOfParseable_Nil [simp]: "sumOfParseable vc [] = Fin 0"
  by (simp add: sumOfParseable_def)


lemma aggregateGroups_ordinary:
  assumes "noInheritedKey gb rows"
  shows "snd (aggregateGroups gb agg vc rows) = []
    \<and> distinct (map fst (fst (aggregateGroups gb agg vc rows)))
    \<and> (\<forall>k. map_of (fst (aggregateGroups gb agg vc rows)) k
          = (if rowsOfGroup gb k rows = [] then None
             else Some (OwnGroup
                         (if agg = ''count'' then Fin 0 else sumOfParseable vc (rowsOfGroup gb k rows))
                         (length (rowsOfGroup gb k rows)))))"
  using assms
proof (induction rows rule: rev_induct)
  case Nil
  then show ?case by (simp add: aggregateGroups_def rowsOfGroup_def)
next
  case (snoc r rows)
  have ni: "noInheritedKey gb rows"
    and nr: "toString (rowGet r gb) \<notin> set (''__proto__'' # objectPrototypeFunctions)"
    using snoc.prems by (simp_all add: noInheritedKey_def)
  obtain G B where ag: "aggregateGroups gb agg vc rows = (G, B)"
    by (cases "aggregateGroups gb agg vc rows")
  have B: "B = []" and dG: "distinct (map fst G)"
    and mG: "\<And>k. map_of G k
          = (if rowsOfGroup gb k rows = [] then None
             else Some (OwnGroup
                         (if agg = ''count'' then Fin 0 else sumOfParseable vc (rowsOfGroup gb k rows))
                         (length (rowsOfGroup gb k rows))))"
    using snoc.IH[OF ni] ag by simp_all
  have step: "aggregateGroups gb agg vc (rows @ [r]) = aggregateStep gb agg vc (G, []) r"
    using ag B by (simp add: aggregateGroups_def)
  show ?case
  proof (cases "rowGet r gb = JUndef \<or> rowGet r gb = JNull")
    case True
    then have "aggregateStep gb agg vc (G, []) r = (G, [])" by (auto simp: aggregateStep_def)
    moreover have "\<And>k. rowsOfGroup gb k (rows @ [r]) = rowsOfGroup gb k rows"
      using True by (auto simp: rowsOfGroup_snoc)
    ultimately show ?thesis using step dG mG by simp
  next
    case False
    let ?k = "toString (rowGet r gb)"
    define s0 where "s0 = (if rowsOfGroup gb ?k rows = [] then Fin 0
                           else if agg = ''count'' then Fin 0
                           else sumOfParseable vc (rowsOfGroup gb ?k rows))"
    define c0 where "c0 = length (rowsOfGroup gb ?k rows)"
    define s1 where "s1 = (if agg \<noteq> ''count'' \<and> \<not> isNaN (cellNumber vc r)
                           then numAdd s0 (cellNumber vc r) else s0)"
    have look: "(case map_of G ?k of
                   Some g \<Rightarrow> g
                 | None \<Rightarrow> if ?k = ''__proto__'' \<or> ?k \<in> set objectPrototypeFunctions
                            then BuiltinRef ?k else OwnGroup (Fin 0) 0)
        = OwnGroup s0 c0"
      using nr by (simp add: mG s0_def c0_def)
    have st: "aggregateStep gb agg vc (G, []) r = (objSet G ?k (OwnGroup s1 (c0 + 1)), [])"
      using False
      by (simp add: aggregateStep_def Let_def look cellNumber_def s1_def del: set_simps)
    have rg: "rowsOfGroup gb ?k (rows @ [r]) = rowsOfGroup gb ?k rows @ [r]"
      using False by (simp add: rowsOfGroup_snoc)
    have s1': "s1 = (if agg = ''count'' then Fin 0
                     else sumOfParseable vc (rowsOfGroup gb ?k rows @ [r]))"
      by (simp add: s1_def s0_def sumOfParseable_snoc)
    have other: "\<And>k. k \<noteq> ?k \<Longrightarrow> rowsOfGroup gb k (rows @ [r]) = rowsOfGroup gb k rows"
      by (auto simp: rowsOfGroup_snoc)
    have m: "\<forall>k. map_of (objSet G ?k (OwnGroup s1 (c0 + 1))) k
          = (if rowsOfGroup gb k (rows @ [r]) = [] then None
             else Some (OwnGroup
                         (if agg = ''count'' then Fin 0
                          else sumOfParseable vc (rowsOfGroup gb k (rows @ [r])))
                         (length (rowsOfGroup gb k (rows @ [r])))))"
    proof
      fix k
      show "map_of (objSet G ?k (OwnGroup s1 (c0 + 1))) k
          = (if rowsOfGroup gb k (rows @ [r]) = [] then None
             else Some (OwnGroup
                         (if agg = ''count'' then Fin 0
                          else sumOfParseable vc (rowsOfGroup gb k (rows @ [r])))
                         (length (rowsOfGroup gb k (rows @ [r])))))"
      proof (cases "k = ?k")
        case True
        then show ?thesis by (simp add: map_of_objSet rg s1' c0_def)
      next
        case False
        then show ?thesis using other[OF False] by (simp add: map_of_objSet mG)
      qed
    qed
    have d: "distinct (map fst (objSet G ?k (OwnGroup s1 (c0 + 1))))"
      using dG by (rule distinct_objSet)
    show ?thesis unfolding step st using m d by simp
  qed
qed

lemma executeAggregate_props:
  assumes "executeAggregate h ds p = (h', nd)"
  shows "extends h h'" "ownedFrom (length h) h' nd"
    "datasetFields h' nd = [groupBy p, aggregateColumnName (aggregation p) (valueColumn p)]"
    "datasetTypes h' nd = None"
    "datasetRows h' nd = aggregatedData p (datasetRows h ds)"
proof -
  from assms have a: "allocDataset h (aggregatedData p (datasetRows h ds))
       [groupBy p, aggregateColumnName (aggregation p) (valueColumn p)] None = (h', nd)"
    by (simp add: executeAggregate_def)
  show "extends h h'" by (rule allocDataset_props(1)[OF a])
  show "ownedFrom (length h) h' nd" by (rule ownedFrom_allocDataset[OF a]) simp
  show "datasetFields h' nd = [groupBy p, aggregateColumnName (aggregation p) (valueColumn p)]"
    by (rule allocDataset_props(5)[OF a])
  show "datasetTypes h' nd = None" by (rule allocDataset_props(6)[OF a])
  show "datasetRows h' nd = aggregatedData p (datasetRows h ds)" by (rule allocDataset_props(4)[OF a])
qed


lemma groupValue_own:
  "groupValue agg b (OwnGroup (if agg = ''count'' then Fin 0 else sumOfParseable vc grp) (length grp))
     = JNum (groupNumber agg vc grp)"
  by (simp add: groupValue_def groupNumber_def toNumber_def)

lemma aggregatedData_ordinary:
  assumes "noInheritedKey (groupBy p) rows"
  shows "aggregatedData p rows
     = map (\<lambda>k. objSet (objSet [] (groupBy p) (JStr k))
                  (aggregateColumnName (aggregation p) (valueColumn p))
                  (JNum (groupNumber (aggregation p) (valueColumn p) (rowsOfGroup (groupBy p) k rows))))
           (map fst (fst (aggregateGroups (groupBy p) (aggregation p) (valueColumn p) rows)))"
    and "aggregateWrites p rows = []"
    and "distinct (map fst (fst (aggregateGroups (groupBy p) (aggregation p) (valueColumn p) rows)))"
    and "set (map fst (fst (aggregateGroups (groupBy p) (aggregation p) (valueColumn p) rows)))
     = {k. rowsOfGroup (groupBy p) k rows \<noteq> []}"
proof -
  obtain G B where ag: "aggregateGroups (groupBy p) (aggregation p) (valueColumn p) rows = (G, B)"
    by (cases "aggregateGroups (groupBy p) (aggregation p) (valueColumn p) rows")
  note o = aggregateGroups_ordinary[OF assms, of "aggregation p" "valueColumn p"]
  have B: "B = []" and dG: "distinct (map fst G)"
    and mG: "\<And>k. map_of G k
          = (if rowsOfGroup (groupBy p) k rows = [] then None
             else Some (OwnGroup
                         (if aggregation p = ''count'' then Fin 0
                          else sumOfParseable (valueColumn p) (rowsOfGroup (groupBy p) k rows))
                         (length (rowsOfGroup (groupBy p) k rows))))"
    using o ag by simp_all
  have keys: "set (map fst G) = {k. rowsOfGroup (groupBy p) k rows \<noteq> []}"
  proof (rule set_eqI)
    fix k
    have "(k \<in> set (map fst G)) = (map_of G k \<noteq> None)" by (simp add: map_of_eq_None_iff)
    also have "\<dots> = (rowsOfGroup (groupBy p) k rows \<noteq> [])" by (simp add: mG)
    finally show "(k \<in> set (map fst G)) = (k \<in> {k. rowsOfGroup (groupBy p) k rows \<noteq> []})"
      by simp
  qed
  have val: "\<And>k. k \<in> set (map fst G) \<Longrightarrow>
       groupValue (aggregation p) [] (groupAt G k)
         = JNum (groupNumber (aggregation p) (valueColumn p) (rowsOfGroup (groupBy p) k rows))"
  proof -
    fix k
    assume "k \<in> set (map fst G)"
    then have ne: "rowsOfGroup (groupBy p) k rows \<noteq> []" using keys by simp
    then have "groupAt G k
        = OwnGroup (if aggregation p = ''count'' then Fin 0
                    else sumOfParseable (valueColumn p) (rowsOfGroup (groupBy p) k rows))
                   (length (rowsOfGroup (groupBy p) k rows))"
      by (simp add: groupAt_def mG)
    then show "groupValue (aggregation p) [] (groupAt G k)
         = JNum (groupNumber (aggregation p) (valueColumn p) (rowsOfGroup (groupBy p) k rows))"
      by (simp only: groupValue_own)
  qed
  have gk: "groupKeys G [] = map fst G" by (simp add: groupKeys_def addedTo_def)
  show "aggregatedData p rows
     = map (\<lambda>k. objSet (objSet [] (groupBy p) (JStr k))
                  (aggregateColumnName (aggregation p) (valueColumn p))
                  (JNum (groupNumber (aggregation p) (valueColumn p) (rowsOfGroup (groupBy p) k rows))))
           (map fst (fst (aggregateGroups (groupBy p) (aggregation p) (valueColumn p) rows)))"
    unfolding aggregatedData_def ag B
    by (simp only: prod.case gk fst_conv) (rule map_cong, rule refl, simp only: val)
  show "aggregateWrites p rows = []" by (simp add: aggregateWrites_def ag B)
  show "distinct (map fst (fst (aggregateGroups (groupBy p) (aggregation p) (valueColumn p) rows)))"
    using dG ag by simp
  show "set (map fst (fst (aggregateGroups (groupBy p) (aggregation p) (valueColumn p) rows)))
     = {k. rowsOfGroup (groupBy p) k rows \<noteq> []}"
    using keys ag by simp
qed

text \<open>
  Off the inherited names the aggregation is the one of the specification: the new dataset
  is made of new objects only, has the fields \<^verbatim>\<open>groupBy\<close> and
  \<^verbatim>\<open><aggregation>_<valueColumn|count>\<close>, and has one row per group of rows, in the order of
  \<^verbatim>\<open>for in\<close>, with the number of the group; no built-in object is written.
\<close>

lemma aggregate_of_ordinary_keys:
  assumes "noInheritedKey (groupBy p) (datasetRows h ds)" and "executeAggregate h ds p = (h', nd)"
  shows "extends h h'" and "ownedFrom (length h) h' nd"
    and "datasetFields h' nd = [groupBy p, aggregateColumnName (aggregation p) (valueColumn p)]"
    and "datasetTypes h' nd = None"
    and "datasetRows h' nd
     = map (\<lambda>k. objSet (objSet [] (groupBy p) (JStr k))
                  (aggregateColumnName (aggregation p) (valueColumn p))
                  (JNum (groupNumber (aggregation p) (valueColumn p)
                           (rowsOfGroup (groupBy p) k (datasetRows h ds)))))
           (map fst (fst (aggregateGroups (groupBy p) (aggregation p) (valueColumn p)
                            (datasetRows h ds))))"
    and "aggregateWrites p (datasetRows h ds) = []"
  using executeAggregate_props[OF assms(2)] aggregatedData_ordinary(1,2)[OF assms(1)]
  by simp_all

text \<open>
  C3 fails on the code for a group key that names a property of \<^verbatim>\<open>Object.prototype\<close>. On the
  single row \<^verbatim>\<open>{g:"constructor", v:"10"}\<close>, \<^verbatim>\<open>aggregate(groupBy:g, aggregation:sum,
  valueColumn:v)\<close> returns \<^verbatim>\<open>{g:"constructor", sum_v:NaN}\<close>, not the sum 10, and leaves \<^verbatim>\<open>sum\<close> and
  \<^verbatim>\<open>count\<close> on the built-in function. On the single row \<^verbatim>\<open>{g:"__proto__", v:"10"}\<close> the group
  is lost, the groups \<^verbatim>\<open>sum\<close> and \<^verbatim>\<open>count\<close> appear, and both properties stay on
  \<^verbatim>\<open>Object.prototype\<close>. The three rows of the specification give 30 and 5.
\<close>

theorem aggregate_on_inherited_key_yields_nan:
  "datasetRows
     (fst (executeAggregate
        [CRow [(''g'', JStr ''constructor''), (''v'', JStr ''10'')], CRows [0], CFields [''g'', ''v''],
         CTypes [(''g'', ''string''), (''v'', ''numerical'')], CMeta 2 (Some 3), CDataset 1 4] 5
        (emptyParams\<lparr>groupBy := ''g'', aggregation := ''sum'', valueColumn := Some ''v''\<rparr>)))
     (snd (executeAggregate
        [CRow [(''g'', JStr ''constructor''), (''v'', JStr ''10'')], CRows [0], CFields [''g'', ''v''],
         CTypes [(''g'', ''string''), (''v'', ''numerical'')], CMeta 2 (Some 3), CDataset 1 4] 5
        (emptyParams\<lparr>groupBy := ''g'', aggregation := ''sum'', valueColumn := Some ''v''\<rparr>)))
     = [[(''g'', JStr ''constructor''), (''sum_v'', JNum NaN)]]
   \<and> aggregateWrites
        (emptyParams\<lparr>groupBy := ''g'', aggregation := ''sum'', valueColumn := Some ''v''\<rparr>)
        [[(''g'', JStr ''constructor''), (''v'', JStr ''10'')]]
      = [(''constructor'', [(''sum'', NaN), (''count'', NaN)])]
   \<and> aggregatedData
        (emptyParams\<lparr>groupBy := ''g'', aggregation := ''sum'', valueColumn := Some ''v''\<rparr>)
        [[(''g'', JStr ''__proto__''), (''v'', JStr ''10'')]]
      = [[(''g'', JStr ''sum''), (''sum_v'', JNum NaN)], [(''g'', JStr ''count''), (''sum_v'', JNum NaN)]]
   \<and> aggregateWrites
        (emptyParams\<lparr>groupBy := ''g'', aggregation := ''sum'', valueColumn := Some ''v''\<rparr>)
        [[(''g'', JStr ''__proto__''), (''v'', JStr ''10'')]]
      = [(''__proto__'', [(''sum'', NaN), (''count'', NaN)])]
   \<and> aggregatedData
        (emptyParams\<lparr>groupBy := ''g'', aggregation := ''sum'', valueColumn := Some ''v''\<rparr>)
        [[(''g'', JStr ''A''), (''v'', JStr ''10'')], [(''g'', JStr ''A''), (''v'', JStr ''20'')],
         [(''g'', JStr ''B''), (''v'', JStr ''5'')]]
      = [[(''g'', JStr ''A''), (''sum_v'', JNum (Fin 30))], [(''g'', JStr ''B''), (''sum_v'', JNum (Fin 5))]]"
  by code_simp


section \<open>Verification: chart data preparation\<close>

lemma keys_replace_set:
  "fst ` set (map (\<lambda>(k', v'). if k' = k then (k', v) else (k', v')) obj) = fst ` set obj"
  by (induction obj) auto

lemma keys_objSet: "fst ` set (objSet obj k v) = insert k (fst ` set obj)"
proof (cases "map_of obj k")
  case None
  then show ?thesis by (auto simp: objSet_def keys_insertIndexKey)
next
  case (Some x)
  then have "(k, x) \<in> set obj" by (rule map_of_SomeD)
  then have "k \<in> fst ` set obj" by force
  then have "insert k (fst ` set obj) = fst ` set obj" by blast
  then show ?thesis using Some keys_replace_set[of k v obj] by (simp add: objSet_def)
qed

lemma subset_step: "A \<subseteq> B \<union> S \<Longrightarrow> D \<subseteq> A \<union> T \<Longrightarrow> D \<subseteq> B \<union> (S \<union> T)"
  by blast

lemma foldl_filter_skip:
  "(\<And>a x. \<not> P x \<Longrightarrow> f a x = a) \<Longrightarrow> foldl f a (filter P xs) = foldl f a xs"
  by (induction xs arbitrary: a) simp_all

lemma sumStep_skip: "\<not> truthy (rowGet r lc) \<Longrightarrow> sumStep lc vc acc r = acc"
  by (simp add: sumStep_def Let_def)

lemma countStep_skip: "\<not> truthy (rowGet r lc) \<Longrightarrow> countStep lc acc r = acc"
  by (simp add: countStep_def Let_def)

lemma averageStep_skip: "\<not> truthy (rowGet r lc) \<Longrightarrow> averageStep lc vc acc r = acc"
  by (simp add: averageStep_def Let_def split: prod.splits)

lemma chartAggregate_skips_falsy:
  "chartAggregate agg lc vc data = chartAggregate agg lc vc (filter (\<lambda>r. truthy (rowGet r lc)) data)"
  by (simp add: chartAggregate_def foldl_filter_skip sumStep_skip countStep_skip averageStep_skip
      split: option.splits)

lemma truthyLabels_Cons:
  "truthyLabels lc (r # data) = (if truthy (rowGet r lc) then {toString (rowGet r lc)} else {}) \<union> truthyLabels lc data"
  by (auto simp: truthyLabels_def)

lemma keys_foldl_sumStep:
  "fst ` set (foldl (sumStep lc vc) acc data) \<subseteq> fst ` set acc \<union> truthyLabels lc data"
proof (induction data arbitrary: acc)
  case Nil
  then show ?case by simp
next
  case (Cons r data)
  have s: "fst ` set (sumStep lc vc acc r) \<subseteq> fst ` set acc \<union> (if truthy (rowGet r lc) then {toString (rowGet r lc)} else {})"
    by (auto simp: sumStep_def Let_def keys_objSet)
  have ih: "fst ` set (foldl (sumStep lc vc) (sumStep lc vc acc r) data)
      \<subseteq> fst ` set (sumStep lc vc acc r) \<union> truthyLabels lc data" by (rule Cons)
  show ?case unfolding truthyLabels_Cons foldl_Cons by (rule subset_step[OF s ih])
qed

lemma keys_foldl_countStep:
  "fst ` set (foldl (countStep lc) acc data) \<subseteq> fst ` set acc \<union> truthyLabels lc data"
proof (induction data arbitrary: acc)
  case Nil
  then show ?case by simp
next
  case (Cons r data)
  have s: "fst ` set (countStep lc acc r) \<subseteq> fst ` set acc \<union> (if truthy (rowGet r lc) then {toString (rowGet r lc)} else {})"
    by (auto simp: countStep_def Let_def keys_objSet)
  have ih: "fst ` set (foldl (countStep lc) (countStep lc acc r) data)
      \<subseteq> fst ` set (countStep lc acc r) \<union> truthyLabels lc data" by (rule Cons)
  show ?case unfolding truthyLabels_Cons foldl_Cons by (rule subset_step[OF s ih])
qed

lemma keys_foldl_averageStep:
  "fst ` set (fst (foldl (averageStep lc vc) acc data)) \<subseteq> fst ` set (fst acc) \<union> truthyLabels lc data"
proof (induction data arbitrary: acc)
  case Nil
  then show ?case by simp
next
  case (Cons r data)
  have s: "fst ` set (fst (averageStep lc vc acc r)) \<subseteq> fst ` set (fst acc) \<union> (if truthy (rowGet r lc) then {toString (rowGet r lc)} else {})"
    by (cases acc) (auto simp: averageStep_def Let_def keys_objSet)
  have ih: "fst ` set (fst (foldl (averageStep lc vc) (averageStep lc vc acc r) data))
      \<subseteq> fst ` set (fst (averageStep lc vc acc r)) \<union> truthyLabels lc data" by (rule Cons)
  show ?case unfolding truthyLabels_Cons foldl_Cons by (rule subset_step[OF s ih])
qed

lemma keys_foldl_cond_objSet:
  "fst ` set (foldl (\<lambda>aggregated x. if c (fst x) then objSet aggregated (fst x) (g (fst x) (snd x)) else aggregated) acc xs)
     \<subseteq> fst ` set acc \<union> fst ` set xs"
proof (induction xs arbitrary: acc)
  case Nil
  then show ?case by simp
next
  case (Cons x xs)
  let ?a = "if c (fst x) then objSet acc (fst x) (g (fst x) (snd x)) else acc"
  have s: "fst ` set ?a \<subseteq> fst ` set acc \<union> {fst x}"
    by (auto simp: keys_objSet)
  have ih: "fst ` set (foldl (\<lambda>aggregated x. if c (fst x) then objSet aggregated (fst x) (g (fst x) (snd x)) else aggregated) ?a xs)
      \<subseteq> fst ` set ?a \<union> fst ` set xs" by (rule Cons)
  have "fst ` set (x # xs) = {fst x} \<union> fst ` set xs" by simp
  then show ?case unfolding foldl_Cons using subset_step[OF s ih] by simp
qed

lemma keys_chartAggregate:
  "fst ` set (chartAggregate agg lc vc data) \<subseteq> truthyLabels lc data"
proof (cases vc)
  case None
  then show ?thesis using keys_foldl_countStep[of lc "[]" data] by (simp add: chartAggregate_def)
next
  case (Some v)
  show ?thesis
  proof (cases "agg = ''average''")
    case True
    obtain sm cn where f: "foldl (averageStep lc v) ([], []) data = (sm, cn)"
      by (cases "foldl (averageStep lc v) ([], []) data")
    have k: "fst ` set sm \<subseteq> truthyLabels lc data"
      using keys_foldl_averageStep[of lc v "([], [])" data] f by simp
    let ?c = "\<lambda>key. numLess (Fin 0) (case map_of cn key of None \<Rightarrow> NaN | Some c \<Rightarrow> c)"
    let ?g = "\<lambda>key s. numDiv s (case map_of cn key of None \<Rightarrow> NaN | Some c \<Rightarrow> c)"
    have feq: "(\<lambda>aggregated (key, s). if ?c key then objSet aggregated key (?g key s) else aggregated)
        = (\<lambda>aggregated x. if ?c (fst x) then objSet aggregated (fst x) (?g (fst x) (snd x)) else aggregated)"
      by (intro ext) (simp add: case_prod_beta)
    have ca: "chartAggregate agg lc vc data
        = foldl (\<lambda>aggregated (key, s). if ?c key then objSet aggregated key (?g key s) else aggregated) [] sm"
      using Some True f by (simp add: chartAggregate_def)
    have "fst ` set (chartAggregate agg lc vc data) \<subseteq> fst ` set sm"
      unfolding ca feq using keys_foldl_cond_objSet[of ?c ?g "[]" sm] by simp
    then show ?thesis using k by blast
  next
    case False
    then show ?thesis
      using Some keys_foldl_sumStep[of lc v "[]" data] keys_foldl_countStep[of lc "[]" data]
      by (simp add: chartAggregate_def)
  qed
qed


lemma sortItems_set: "set (sortItems dp nc ct items) = set items"
  by (simp add: sortItems_def sortBy_set)

lemma collapseItems_labels: "set (fst (collapseItems ct items)) \<subseteq> fst ` set items \<union> {''Other''}"
  by (auto simp: collapseItems_def Let_def dest: in_set_takeD)

lemma chartSeries_skips_falsy:
  "chartSeries dp nc ct agg lc vc (filter (\<lambda>r. truthy (rowGet r lc)) data) = chartSeries dp nc ct agg lc vc data"
  by (simp add: chartSeries_def chartAggregate_skips_falsy[symmetric])

lemma prepareChartData_skips_falsy:
  assumes "chartType cfg \<in> set [''bar'', ''line'', ''area'', ''pie'', ''donut'']"
    "findMatchingColumn (if chartType cfg \<in> set [''pie'', ''donut''] then categoryColumn cfg
                         else xAxisColumn cfg) cols = Some lc"
  shows "prepareChartData dp nc cfg data cols
     = prepareChartData dp nc cfg (filter (\<lambda>r. truthy (rowGet r lc)) data) cols"
  using assms by (simp add: prepareChartData_def Let_def chartSeries_skips_falsy)

lemma chartSeries_labels:
  assumes "chartSeries dp nc ct agg lc vc data = (Series labels vals dl, xt, yt)"
  shows "xt = Some lc \<and> set labels \<subseteq> truthyLabels lc data \<union> {''Other''}"
proof -
  let ?items = "sortItems dp nc ct (chartAggregate agg lc vc data)"
  have r: "labels = fst (collapseItems ct ?items)" "xt = Some lc"
    using assms by (simp_all add: chartSeries_def Let_def)
  have "set labels \<subseteq> fst ` set ?items \<union> {''Other''}" using r collapseItems_labels by simp
  also have "\<dots> \<subseteq> truthyLabels lc data \<union> {''Other''}"
    using keys_chartAggregate[of agg lc vc data] by (auto simp: sortItems_set)
  finally show ?thesis using r by blast
qed

lemma prepareChartData_labels:
  assumes "prepareChartData dp nc cfg data cols = Inr (Some (Series labels vals dl, xt, yt))"
  shows "\<exists>lc. xt = Some lc \<and> set labels \<subseteq> truthyLabels lc data \<union> {''Other''}"
proof -
  have "\<exists>ct agg lc vc. chartSeries dp nc ct agg lc vc data = (Series labels vals dl, xt, yt)"
    using assms
    by (auto simp: prepareChartData_def Let_def split: if_splits option.splits)
  then show ?thesis using chartSeries_labels by blast
qed


lemma length_insertBy: "length (insertBy cmp x ys) = Suc (length ys)"
  by (induction ys) auto

lemma length_sortBy: "length (sortBy cmp xs) = length xs"
  by (induction xs) (simp_all add: sortBy_def length_insertBy)

lemma distinct_map_insertBy:
  "distinct (map f (insertBy cmp x ys)) = (f x \<notin> f ` set ys \<and> distinct (map f ys))"
  by (induction ys) (auto simp: insertBy_set)

lemma distinct_map_sortBy: "distinct (map f (sortBy cmp xs)) = distinct (map f xs)"
proof (induction xs)
  case Nil
  then show ?case by (simp add: sortBy_def)
next
  case (Cons x xs)
  have "sortBy cmp (x # xs) = insertBy cmp x (sortBy cmp xs)" by (simp add: sortBy_def)
  then show ?case using Cons by (simp add: distinct_map_insertBy sortBy_set)
qed

lemma desc_cmp: "\<not> isNaN a \<Longrightarrow> \<not> isNaN b \<Longrightarrow> numLess (Fin 0) (numSub b a) = numLess a b"
  by (cases a; cases b) (simp_all add: isNaN_def numSub_def)

lemma notLess_trans:
  "\<not> isNaN a \<Longrightarrow> \<not> isNaN b \<Longrightarrow> \<not> isNaN c \<Longrightarrow> \<not> numLess a b \<Longrightarrow> \<not> numLess b c \<Longrightarrow> \<not> numLess a c"
  by (cases a; cases b; cases c) (simp_all add: isNaN_def)

lemma less_notLess: "\<not> isNaN a \<Longrightarrow> \<not> isNaN b \<Longrightarrow> numLess a b \<Longrightarrow> \<not> numLess b a"
  by (cases a; cases b) (simp_all add: isNaN_def)

lemma sorted_insertBy_desc:
  assumes "\<forall>y \<in> set ys. \<not> isNaN (snd y)" "\<not> isNaN (snd x)"
    "sorted_wrt (\<lambda>a b. \<not> numLess (snd a) (snd b)) ys"
  shows "sorted_wrt (\<lambda>a b. \<not> numLess (snd a) (snd b)) (insertBy byValueDescending x ys)"
  using assms
proof (induction ys)
  case Nil
  then show ?case by simp
next
  case (Cons y ys)
  have fy: "\<not> isNaN (snd y)" and fys: "\<forall>z \<in> set ys. \<not> isNaN (snd z)" using Cons.prems(1) by simp_all
  have sy: "\<forall>z \<in> set ys. \<not> numLess (snd y) (snd z)" and st: "sorted_wrt (\<lambda>a b. \<not> numLess (snd a) (snd b)) ys"
    using Cons.prems(3) by simp_all
  have c: "numLess (Fin 0) (byValueDescending x y) = numLess (snd x) (snd y)"
    using desc_cmp[OF Cons.prems(2) fy] by (simp add: byValueDescending_def)
  show ?case
  proof (cases "numLess (snd x) (snd y)")
    case True
    have "\<not> numLess (snd y) (snd x)" by (rule less_notLess[OF Cons.prems(2) fy True])
    then have "\<forall>z \<in> set (insertBy byValueDescending x ys). \<not> numLess (snd y) (snd z)"
      using sy by (simp add: insertBy_set)
    then show ?thesis using True c Cons.IH[OF fys Cons.prems(2) st] by simp
  next
    case False
    have "\<forall>z \<in> set ys. \<not> numLess (snd x) (snd z)"
      using notLess_trans[OF Cons.prems(2) fy _ False] fys sy by blast
    then show ?thesis using False c Cons.prems(3) by simp
  qed
qed

lemma sorted_sortBy_desc:
  assumes "\<forall>y \<in> set xs. \<not> isNaN (snd y)"
  shows "sorted_wrt (\<lambda>a b. \<not> numLess (snd a) (snd b)) (sortBy byValueDescending xs)"
  using assms
proof (induction xs)
  case Nil
  then show ?case by (simp add: sortBy_def)
next
  case (Cons x xs)
  have e: "sortBy byValueDescending (x # xs) = insertBy byValueDescending x (sortBy byValueDescending xs)"
    by (simp add: sortBy_def)
  have "\<forall>y \<in> set (sortBy byValueDescending xs). \<not> isNaN (snd y)"
    using Cons.prems by (simp add: sortBy_set)
  from sorted_insertBy_desc[OF this] Cons show ?case unfolding e by simp
qed

lemma sorted_wrt_take_drop:
  assumes "sorted_wrt R xs"
  shows "\<forall>a \<in> set (take n xs). \<forall>b \<in> set (drop n xs). R a b"
proof -
  have "sorted_wrt R (take n xs @ drop n xs)" using assms by simp
  then show ?thesis unfolding sorted_wrt_append by blast
qed

lemma distinct_keys_foldl_sumStep:
  "distinct (map fst acc) \<Longrightarrow> distinct (map fst (foldl (sumStep lc vc) acc data))"
  by (induction data arbitrary: acc) (simp_all add: sumStep_def Let_def distinct_objSet)

lemma distinct_keys_foldl_countStep:
  "distinct (map fst acc) \<Longrightarrow> distinct (map fst (foldl (countStep lc) acc data))"
  by (induction data arbitrary: acc) (simp_all add: countStep_def Let_def distinct_objSet)

lemma distinct_keys_foldl_cond:
  "distinct (map fst acc) \<Longrightarrow>
   distinct (map fst (foldl (\<lambda>aggregated (key, s). if c key then objSet aggregated key (g key s) else aggregated) acc xs))"
  by (induction xs arbitrary: acc) (auto simp: distinct_objSet)

lemma distinct_keys_chartAggregate: "distinct (map fst (chartAggregate agg lc vc data))"
  by (auto simp: chartAggregate_def distinct_keys_foldl_sumStep distinct_keys_foldl_countStep
      distinct_keys_foldl_cond split: option.splits prod.splits)

lemma collapseItems_many:
  assumes "isCategoricalChart ct" "20 < length items"
  shows "collapseItems ct items
     = (map fst (take 19 items) @ [''Other''],
        map snd (take 19 items) @ [foldl numAdd (Fin 0) (map snd (drop 19 items))])"
  using assms by (simp add: collapseItems_def Let_def foldl_map)

text \<open>
  When no group value is NaN, a bar, pie or donut chart with more than 20 groups has 20
  labels: the first 19 groups of the aggregation sorted by value, then \<^verbatim>\<open>Other\<close>, whose value
  is the sum of the values of all the remaining groups. The sorted list holds the same
  groups, each once, in descending order, so that the kept groups are the top ones by value.
\<close>

lemma collapse_keeps_top_without_nan:
  assumes cat: "isCategoricalChart ct" and len: "20 < length (chartAggregate agg lc vc data)"
    and cs: "chartSeries dp nc ct agg lc vc data = (Series labels vals dl, xt, yt)"
    and f: "\<forall>x \<in> set (chartAggregate agg lc vc data). \<not> isNaN (snd x)"
  shows "labels = map fst (take 19 (sortBy byValueDescending (chartAggregate agg lc vc data))) @ [''Other'']"
    and "vals = map snd (take 19 (sortBy byValueDescending (chartAggregate agg lc vc data)))
               @ [foldl numAdd (Fin 0)
                    (map snd (drop 19 (sortBy byValueDescending (chartAggregate agg lc vc data))))]"
    and "length labels = 20"
    and "set (sortBy byValueDescending (chartAggregate agg lc vc data)) = set (chartAggregate agg lc vc data)"
    and "distinct (map fst (sortBy byValueDescending (chartAggregate agg lc vc data)))"
    and "sorted_wrt (\<lambda>a b. \<not> numLess (snd a) (snd b))
           (sortBy byValueDescending (chartAggregate agg lc vc data))"
    and "keptAreTop (take 19 (sortBy byValueDescending (chartAggregate agg lc vc data)))
           (drop 19 (sortBy byValueDescending (chartAggregate agg lc vc data)))"
proof -
  let ?agg = "chartAggregate agg lc vc data"
  let ?S = "sortBy byValueDescending ?agg"
  have si: "sortItems dp nc ct ?agg = ?S" using cat by (simp add: sortItems_def)
  have ls: "length ?S = length ?agg" by (rule length_sortBy)
  have co: "collapseItems ct ?S
     = (map fst (take 19 ?S) @ [''Other''],
        map snd (take 19 ?S) @ [foldl numAdd (Fin 0) (map snd (drop 19 ?S))])"
    by (rule collapseItems_many[OF cat]) (simp add: ls len)
  show l: "labels = map fst (take 19 ?S) @ [''Other'']"
    and "vals = map snd (take 19 ?S) @ [foldl numAdd (Fin 0) (map snd (drop 19 ?S))]"
    using cs by (simp_all add: chartSeries_def Let_def si co)
  show "length labels = 20" using l ls len by simp
  show st: "set ?S = set ?agg" by (rule sortBy_set)
  show "distinct (map fst ?S)" by (simp add: distinct_map_sortBy distinct_keys_chartAggregate)
  show s: "sorted_wrt (\<lambda>a b. \<not> numLess (snd a) (snd b)) ?S" by (rule sorted_sortBy_desc[OF f])
  have nn: "\<forall>x \<in> set ?S. \<not> isNaN (snd x)" using f st by simp
  have "\<forall>a \<in> set (take 19 ?S). \<forall>b \<in> set (drop 19 ?S). numGeq (snd a) (snd b)"
  proof (intro ballI)
    fix a b
    assume a: "a \<in> set (take 19 ?S)" and b: "b \<in> set (drop 19 ?S)"
    have "a \<in> set ?S" "b \<in> set ?S" using a b by (auto dest: in_set_takeD in_set_dropD)
    then have "\<not> isNaN (snd a)" "\<not> isNaN (snd b)" using nn by simp_all
    moreover have "\<not> numLess (snd a) (snd b)" using sorted_wrt_take_drop[OF s, of 19] a b by blast
    ultimately show "numGeq (snd a) (snd b)" by (simp add: numGeq_def)
  qed
  then show "keptAreTop (take 19 ?S) (drop 19 ?S)" by (simp add: keptAreTop_def list_all_iff)
qed


text \<open>
  C10: in the dataset path of the chart data preparer (bar, line, area, pie, donut) a row
  whose label cell is falsy (the empty string, the number 0, \<^verbatim>\<open>null\<close>, \<^verbatim>\<open>undefined\<close>) does not
  take part in the aggregation, for sum, average and count alike: the aggregation, and the
  prepared chart, are those of the data without these rows. Every group key, and every
  chart label other than the synthetic \<^verbatim>\<open>Other\<close>, is the string of the label cell of a row
  whose label cell is truthy.
\<close>

theorem falsy_labels_excluded_from_chart_aggregation:
  "chartAggregate agg lc vc data
     = chartAggregate agg lc vc (filter (\<lambda>r. truthy (rowGet r lc)) data)
   \<and> fst ` set (chartAggregate agg lc vc data) \<subseteq> truthyLabels lc data
   \<and> (chartType cfg \<in> set [''bar'', ''line'', ''area'', ''pie'', ''donut'']
        \<and> findMatchingColumn
             (if chartType cfg \<in> set [''pie'', ''donut''] then categoryColumn cfg
              else xAxisColumn cfg) cols = Some lc \<longrightarrow>
        prepareChartData dp nc cfg data cols
          = prepareChartData dp nc cfg (filter (\<lambda>r. truthy (rowGet r lc)) data) cols)
   \<and> (prepareChartData dp nc cfg data cols = Inr (Some (Series labels vals dl, xt, yt)) \<longrightarrow>
        (\<exists>c. xt = Some c \<and> set labels \<subseteq> truthyLabels c data \<union> {''Other''}))
   \<and> \<not> truthy (JStr []) \<and> \<not> truthy (JNum (Fin 0)) \<and> \<not> truthy JNull \<and> \<not> truthy JUndef"
proof -
  have A: "chartAggregate agg lc vc data
     = chartAggregate agg lc vc (filter (\<lambda>r. truthy (rowGet r lc)) data)"
    by (rule chartAggregate_skips_falsy)
  have B: "fst ` set (chartAggregate agg lc vc data) \<subseteq> truthyLabels lc data"
    by (rule keys_chartAggregate)
  have C: "chartType cfg \<in> set [''bar'', ''line'', ''area'', ''pie'', ''donut'']
        \<and> findMatchingColumn
             (if chartType cfg \<in> set [''pie'', ''donut''] then categoryColumn cfg
              else xAxisColumn cfg) cols = Some lc \<longrightarrow>
        prepareChartData dp nc cfg data cols
          = prepareChartData dp nc cfg (filter (\<lambda>r. truthy (rowGet r lc)) data) cols"
    using prepareChartData_skips_falsy by blast
  have D: "prepareChartData dp nc cfg data cols = Inr (Some (Series labels vals dl, xt, yt)) \<longrightarrow>
        (\<exists>c. xt = Some c \<and> set labels \<subseteq> truthyLabels c data \<union> {''Other''})"
    using prepareChartData_labels by blast
  have E: "\<not> truthy (JStr [])" and F: "\<not> truthy (JNum (Fin 0))" and G: "\<not> truthy JNull"
    and H: "\<not> truthy JUndef" by (simp_all add: truthy_def)
  show ?thesis by (intro conjI A B C D E F G H)
qed

theorem falsy_labels_excluded_from_chart_aggregation_witness:
  "chartType (emptyParams\<lparr>chartType := ''bar'', xAxisColumn := Some ''k'', yAxisColumn := Some ''v'',
                            aggregation := ''sum''\<rparr>)
     \<in> set [''bar'', ''line'', ''area'', ''pie'', ''donut'']
   \<and> prepareChartData (\<lambda>s. NaN) (\<lambda>a b. 0)
        (emptyParams\<lparr>chartType := ''bar'', xAxisColumn := Some ''k'', yAxisColumn := Some ''v'',
                       aggregation := ''sum''\<rparr>)
        [[(''k'', JStr []), (''v'', JNum (Fin 1))], [(''k'', JNum (Fin 0)), (''v'', JNum (Fin 2))],
         [(''k'', JNull), (''v'', JNum (Fin 3))], [(''v'', JNum (Fin 5))],
         [(''k'', JStr ''a''), (''v'', JNum (Fin 4))]]
        [''k'', ''v'']
      = Inr (Some (Series [''a''] [Fin 4] ''Total v'', Some ''k'', Some ''Total v''))
   \<and> prepareChartData (\<lambda>s. NaN) (\<lambda>a b. 0)
        (emptyParams\<lparr>chartType := ''bar'', xAxisColumn := Some ''k'', yAxisColumn := Some ''v'',
                       aggregation := ''sum''\<rparr>)
        [[(''k'', JStr []), (''v'', JNum (Fin 1))], [(''k'', JNum (Fin 0)), (''v'', JNum (Fin 2))],
         [(''k'', JNull), (''v'', JNum (Fin 3))], [(''v'', JNum (Fin 5))],
         [(''k'', JStr ''a''), (''v'', JNum (Fin 4))]]
        [''k'', ''v'']
      = prepareChartData (\<lambda>s. NaN) (\<lambda>a b. 0)
        (emptyParams\<lparr>chartType := ''bar'', xAxisColumn := Some ''k'', yAxisColumn := Some ''v'',
                       aggregation := ''sum''\<rparr>)
        [[(''k'', JStr ''a''), (''v'', JNum (Fin 4))]]
        [''k'', ''v'']
   \<and> (\<exists>c. Some ''k'' = Some c
         \<and> set [''a'']
            \<subseteq> truthyLabels c
                 [[(''k'', JStr []), (''v'', JNum (Fin 1))], [(''k'', JNum (Fin 0)), (''v'', JNum (Fin 2))],
                  [(''k'', JNull), (''v'', JNum (Fin 3))], [(''v'', JNum (Fin 5))],
                  [(''k'', JStr ''a''), (''v'', JNum (Fin 4))]] \<union> {''Other''})"
proof -
  let ?cfg = "emptyParams\<lparr>chartType := ''bar'', xAxisColumn := Some ''k'', yAxisColumn := Some ''v'',
                       aggregation := ''sum''\<rparr>"
  let ?data = "[[(''k'', JStr []), (''v'', JNum (Fin 1))], [(''k'', JNum (Fin 0)), (''v'', JNum (Fin 2))],
         [(''k'', JNull), (''v'', JNum (Fin 3))], [(''v'', JNum (Fin 5))],
         [(''k'', JStr ''a''), (''v'', JNum (Fin 4))]]"
  note t = falsy_labels_excluded_from_chart_aggregation
             [where cfg = ?cfg and lc = "''k''" and cols = "[''k'', ''v'']" and data = ?data
                and dp = "\<lambda>s. NaN" and nc = "\<lambda>a b. 0" and labels = "[''a'']" and vals = "[Fin 4]"
                and dl = "''Total v''" and xt = "Some ''k''" and yt = "Some ''Total v''"]
  have p1: "chartType ?cfg \<in> set [''bar'', ''line'', ''area'', ''pie'', ''donut'']" by code_simp
  have p2: "findMatchingColumn
             (if chartType ?cfg \<in> set [''pie'', ''donut''] then categoryColumn ?cfg
              else xAxisColumn ?cfg) [''k'', ''v''] = Some ''k''" by code_simp
  have p3: "prepareChartData (\<lambda>s. NaN) (\<lambda>a b. 0) ?cfg ?data [''k'', ''v'']
      = Inr (Some (Series [''a''] [Fin 4] ''Total v'', Some ''k'', Some ''Total v''))" by code_simp
  have f: "filter (\<lambda>r. truthy (rowGet r ''k'')) ?data = [[(''k'', JStr ''a''), (''v'', JNum (Fin 4))]]"
    by code_simp
  from t p1 p2 have "prepareChartData (\<lambda>s. NaN) (\<lambda>a b. 0) ?cfg ?data [''k'', ''v'']
      = prepareChartData (\<lambda>s. NaN) (\<lambda>a b. 0) ?cfg (filter (\<lambda>r. truthy (rowGet r ''k'')) ?data)
          [''k'', ''v'']"
    by blast
  then have g1: "prepareChartData (\<lambda>s. NaN) (\<lambda>a b. 0) ?cfg ?data [''k'', ''v'']
      = prepareChartData (\<lambda>s. NaN) (\<lambda>a b. 0) ?cfg [[(''k'', JStr ''a''), (''v'', JNum (Fin 4))]]
          [''k'', ''v'']"
    by (simp only: f)
  from t p3 have g2: "\<exists>c. Some ''k'' = Some c \<and> set [''a''] \<subseteq> truthyLabels c ?data \<union> {''Other''}"
    by blast
  show ?thesis by (intro conjI p1 p3 g1 g2)
qed

section \<open>Verification: the normalizer\<close>


lemma sampleStep_eq:
  "sampleStep f (n, m, b) r
     = (if isBlank (rowGet r f) then (n, m, b)
        else (n + (if numericLike (rowGet r f) then 1 else 0), m + 1, b \<or> hasDirt (rowGet r f)))"
  by (cases "rowGet r f")
     (auto simp: sampleStep_def isBlank_def numericLike_def hasDirt_def cleanNumber_def
        cleansToNumber_def Let_def toString_def)

lemma foldl_sampleStep:
  "foldl (sampleStep f) (n, m, b) sample
     = (n + length (filter numericLike (sampledValues sample f)),
        m + length (sampledValues sample f),
        b \<or> list_ex hasDirt (sampledValues sample f))"
proof (induction sample arbitrary: n m b)
  case Nil
  then show ?case by (simp add: sampledValues_def columnOf_def)
next
  case (Cons r sample)
  show ?case
    by (simp add: sampleStep_eq Cons.IH sampledValues_def columnOf_def)
qed

lemma markedForCleaning_iff: "markedForCleaning sample f = cleaningCandidate sample f"
  by (simp add: markedForCleaning_def sampleCounts_def foldl_sampleStep cleaningCandidate_def)

lemma rowGet_objSet: "rowGet (objSet r k v) k' = (if k' = k then v else rowGet r k')"
  by (simp add: rowGet_def map_of_objSet)

lemma rowGet_cleanCell: "f \<noteq> g \<Longrightarrow> rowGet (cleanCell r g) f = rowGet r f"
  by (simp add: cleanCell_def Let_def rowGet_objSet split: jsval.splits)

lemma rowGet_foldl_cleanCell: "f \<notin> set fs \<Longrightarrow> rowGet (foldl cleanCell r fs) f = rowGet r f"
  by (induction fs arbitrary: r) (auto simp: rowGet_cleanCell)

lemma length_cleanAndNormalizeData: "length (cleanAndNormalizeData data fs) = length data"
  by (simp add: cleanAndNormalizeData_def Let_def)

lemma cleanAndNormalizeData_unmarked:
  assumes "\<not> (f \<in> set fs \<and> markedForCleaning (take 100 data) f)"
  shows "columnOf f (cleanAndNormalizeData data fs) = columnOf f data"
proof -
  have "f \<notin> set (filter (markedForCleaning (take 100 data)) fs)" using assms by simp
  then show ?thesis
    by (simp add: cleanAndNormalizeData_def Let_def columnOf_def rowGet_foldl_cleanCell)
qed

lemma hasDirt_props: "hasDirt v \<Longrightarrow> (\<exists>s. v = JStr s \<and> hasNonNumeric s) \<and> numericLike v"
  by (cases v) (auto simp: hasDirt_def numericLike_def)

text \<open>
  C4: the normalizer changes a cell of a column only when the column is one of the given
  fields and was marked by the sampling pass over the first 100 rows; a column is marked
  exactly when there is a non-empty sampled value, at least 80% of the non-empty sampled
  values are numeric-like, and some sampled value has real dirt, which is a string with a
  character outside \<^verbatim>\<open>[0-9.-]\<close>. A number and a string that already is a number are no dirt,
  so a column whose sampled values have no dirt is left as it is: \<^verbatim>\<open>[1,2,3]\<close> and
  \<^verbatim>\<open>["1","2","3"]\<close> stay, while \<^verbatim>\<open>["$1,200","$950"]\<close> becomes the numbers 1200 and 950.
\<close>

theorem normalizer_rewrites_only_dirty_numeric_columns:
  "(columnOf f (cleanAndNormalizeData data fs) \<noteq> columnOf f data \<longrightarrow>
      f \<in> set fs
      \<and> 0 < length (sampledValues (take 100 data) f)
      \<and> (8 / 10 :: rat)
          \<le> of_nat (length (filter numericLike (sampledValues (take 100 data) f)))
             / of_nat (length (sampledValues (take 100 data) f))
      \<and> list_ex hasDirt (sampledValues (take 100 data) f))
   \<and> markedForCleaning sample g = cleaningCandidate sample g
   \<and> (hasDirt v \<longrightarrow> (\<exists>s. v = JStr s \<and> hasNonNumeric s) \<and> numericLike v)
   \<and> \<not> hasDirt (JNum x)
   \<and> (cleanNumber t \<longrightarrow> \<not> hasDirt (JStr t))
   \<and> (\<not> list_ex hasDirt (sampledValues (take 100 cdata) cf) \<longrightarrow>
        columnOf cf (cleanAndNormalizeData cdata cfs) = columnOf cf cdata)
   \<and> length (cleanAndNormalizeData data fs) = length data
   \<and> cleanAndNormalizeData
        [[(''c'', JNum (Fin 1))], [(''c'', JNum (Fin 2))], [(''c'', JNum (Fin 3))]] [''c'']
      = [[(''c'', JNum (Fin 1))], [(''c'', JNum (Fin 2))], [(''c'', JNum (Fin 3))]]
   \<and> cleanAndNormalizeData
        [[(''c'', JStr ''1'')], [(''c'', JStr ''2'')], [(''c'', JStr ''3'')]] [''c'']
      = [[(''c'', JStr ''1'')], [(''c'', JStr ''2'')], [(''c'', JStr ''3'')]]
   \<and> cleanAndNormalizeData [[(''c'', JStr ''$1,200'')], [(''c'', JStr ''$950'')]] [''c'']
      = [[(''c'', JNum (Fin 1200))], [(''c'', JNum (Fin 950))]]"
proof -
  have A: "columnOf f (cleanAndNormalizeData data fs) \<noteq> columnOf f data \<longrightarrow>
      f \<in> set fs
      \<and> 0 < length (sampledValues (take 100 data) f)
      \<and> (8 / 10 :: rat)
          \<le> of_nat (length (filter numericLike (sampledValues (take 100 data) f)))
             / of_nat (length (sampledValues (take 100 data) f))
      \<and> list_ex hasDirt (sampledValues (take 100 data) f)"
  proof
    assume ne: "columnOf f (cleanAndNormalizeData data fs) \<noteq> columnOf f data"
    have "f \<in> set fs \<and> markedForCleaning (take 100 data) f"
      using cleanAndNormalizeData_unmarked[of f fs data] ne by blast
    then show "f \<in> set fs
      \<and> 0 < length (sampledValues (take 100 data) f)
      \<and> (8 / 10 :: rat)
          \<le> of_nat (length (filter numericLike (sampledValues (take 100 data) f)))
             / of_nat (length (sampledValues (take 100 data) f))
      \<and> list_ex hasDirt (sampledValues (take 100 data) f)"
      by (simp add: markedForCleaning_iff cleaningCandidate_def)
  qed
  have B: "markedForCleaning sample g = cleaningCandidate sample g" by (rule markedForCleaning_iff)
  have C: "hasDirt v \<longrightarrow> (\<exists>s. v = JStr s \<and> hasNonNumeric s) \<and> numericLike v"
    using hasDirt_props by blast
  have D: "\<not> hasDirt (JNum x)" by (simp add: hasDirt_def)
  have E: "cleanNumber t \<longrightarrow> \<not> hasDirt (JStr t)" by (simp add: hasDirt_def)
  have F: "\<not> list_ex hasDirt (sampledValues (take 100 cdata) cf) \<longrightarrow>
        columnOf cf (cleanAndNormalizeData cdata cfs) = columnOf cf cdata"
  proof
    assume "\<not> list_ex hasDirt (sampledValues (take 100 cdata) cf)"
    then have "\<not> markedForCleaning (take 100 cdata) cf"
      by (simp add: markedForCleaning_iff cleaningCandidate_def)
    then show "columnOf cf (cleanAndNormalizeData cdata cfs) = columnOf cf cdata"
      by (simp add: cleanAndNormalizeData_unmarked)
  qed
  have G: "length (cleanAndNormalizeData data fs) = length data"
    by (rule length_cleanAndNormalizeData)
  have H: "cleanAndNormalizeData
        [[(''c'', JNum (Fin 1))], [(''c'', JNum (Fin 2))], [(''c'', JNum (Fin 3))]] [''c'']
      = [[(''c'', JNum (Fin 1))], [(''c'', JNum (Fin 2))], [(''c'', JNum (Fin 3))]]"
    by code_simp
  have I: "cleanAndNormalizeData
        [[(''c'', JStr ''1'')], [(''c'', JStr ''2'')], [(''c'', JStr ''3'')]] [''c'']
      = [[(''c'', JStr ''1'')], [(''c'', JStr ''2'')], [(''c'', JStr ''3'')]]"
    by code_simp
  have J: "cleanAndNormalizeData [[(''c'', JStr ''$1,200'')], [(''c'', JStr ''$950'')]] [''c'']
      = [[(''c'', JNum (Fin 1200))], [(''c'', JNum (Fin 950))]]"
    by code_simp
  show ?thesis by (intro conjI A B C D E F G H I J)
qed

theorem normalizer_rewrites_only_dirty_numeric_columns_witness:
  "columnOf ''c'' (cleanAndNormalizeData [[(''c'', JStr ''$1,200'')], [(''c'', JStr ''$950'')]] [''c''])
     \<noteq> columnOf ''c'' [[(''c'', JStr ''$1,200'')], [(''c'', JStr ''$950'')]]
   \<and> list_ex hasDirt
        (sampledValues (take 100 [[(''c'', JStr ''$1,200'')], [(''c'', JStr ''$950'')]]) ''c'')
   \<and> hasDirt (JStr ''$1,200'') \<and> numericLike (JStr ''$1,200'')
   \<and> cleanNumber ''950'' \<and> \<not> hasDirt (JStr ''950'')
   \<and> \<not> list_ex hasDirt
        (sampledValues (take 100 [[(''c'', JStr ''1'')], [(''c'', JStr ''2'')], [(''c'', JStr ''3'')]])
           ''c'')
   \<and> columnOf ''c''
        (cleanAndNormalizeData [[(''c'', JStr ''1'')], [(''c'', JStr ''2'')], [(''c'', JStr ''3'')]]
           [''c''])
      = columnOf ''c'' [[(''c'', JStr ''1'')], [(''c'', JStr ''2'')], [(''c'', JStr ''3'')]]"
proof -
  let ?d = "[[(''c'', JStr ''$1,200'')], [(''c'', JStr ''$950'')]]"
  let ?c = "[[(''c'', JStr ''1'')], [(''c'', JStr ''2'')], [(''c'', JStr ''3'')]]"
  note t = normalizer_rewrites_only_dirty_numeric_columns
             [where f = "''c''" and fs = "[''c'']" and data = ?d and v = "JStr ''$1,200''"
                and t = "''950''" and cdata = ?c and cf = "''c''" and cfs = "[''c'']"]
  have p1: "columnOf ''c'' (cleanAndNormalizeData ?d [''c'']) \<noteq> columnOf ''c'' ?d" by code_simp
  have p2: "hasDirt (JStr ''$1,200'')" by code_simp
  have p3: "cleanNumber ''950''" by code_simp
  have p4: "\<not> list_ex hasDirt (sampledValues (take 100 ?c) ''c'')" by code_simp
  from t p1 have g1: "list_ex hasDirt (sampledValues (take 100 ?d) ''c'')" by blast
  from t p2 have g2: "numericLike (JStr ''$1,200'')" by blast
  from t p3 have g3: "\<not> hasDirt (JStr ''950'')" by blast
  from t p4 have g4: "columnOf ''c'' (cleanAndNormalizeData ?c [''c'']) = columnOf ''c'' ?c" by blast
  show ?thesis by (intro conjI p1 g1 p2 g2 p3 g3 p4 g4)
qed

section \<open>Verification: the type inferencer\<close>

lemma fst_foldl_inferStep:
  "fst (foldl (inferStep dp f) acc sample)
     = (fst acc \<and> list_all parsesAsNumber (inferenceValues sample f))"
proof (induction sample arbitrary: acc)
  case Nil
  then show ?case by (simp add: inferenceValues_def columnOf_def)
next
  case (Cons r sample)
  obtain n t u where acc: "acc = (n, t, u)" by (cases acc)
  have "fst (inferStep dp f acc r)
     = (fst acc \<and> list_all parsesAsNumber (inferenceValues [r] f))"
    by (simp add: acc inferStep_def inferenceValues_def columnOf_def parsesAsNumber_def Let_def)
  moreover have "inferenceValues (r # sample) f = inferenceValues [r] f @ inferenceValues sample f"
    by (simp add: inferenceValues_def columnOf_def)
  ultimately show ?case by (simp add: Cons.IH conj_assoc)
qed

lemma inferType_numerical:
  "(inferType dp sample f = ''numerical'') = list_all parsesAsNumber (inferenceValues sample f)"
proof -
  obtain n t u where r: "foldl (inferStep dp f) (True, True, []) sample = (n, t, u)"
    by (cases "foldl (inferStep dp f) (True, True, []) sample")
  have "n = list_all parsesAsNumber (inferenceValues sample f)"
    using fst_foldl_inferStep[of dp f "(True, True, [])" sample] r by simp
  then show ?thesis by (simp add: inferType_def r)
qed

lemma inferType_temporal:
  "inferType dp sample f = ''temporal'' \<Longrightarrow> \<not> list_all parsesAsNumber (inferenceValues sample f)"
  using inferType_numerical[of dp sample f] by auto

lemma map_of_foldl_objSet:
  "map_of (foldl (\<lambda>types field. objSet types field (g field)) acc fs) f
     = (if f \<in> set fs then Some (g f) else map_of acc f)"
  by (induction fs arbitrary: acc) (auto simp: map_of_objSet)

lemma map_of_inferColumnTypes:
  "map_of (inferColumnTypes dp data fs) f
     = (if data \<noteq> [] \<and> f \<in> set fs then Some (inferType dp (take 100 data) f) else None)"
  by (simp add: inferColumnTypes_def Let_def map_of_foldl_objSet)

text \<open>
  C6 as stated fails on a dataset without rows: the sample is empty, so every non-empty
  sampled value of every field parses as a number, yet \<^verbatim>\<open>inferColumnTypes\<close> returns the
  empty object and the field \<^verbatim>\<open>year\<close> of the field list has no type at all, and so is not
  classified numerical.
\<close>

theorem empty_dataset_leaves_fields_unclassified:
  "list_all parsesAsNumber (inferenceValues (take 100 []) ''year'')
   \<and> inferColumnTypes acceptingDateParse [] [''year''] = []
   \<and> map_of (inferColumnTypes acceptingDateParse [] [''year'']) ''year'' \<noteq> Some ''numerical''"
  by code_simp

text \<open>
  C6, amended: for every dataset with at least one row and every field of the field list,
  if every non-empty value of the field in the first 100 rows parses as a number after
  \<^verbatim>\<open>$\<close>, \<^verbatim>\<open>,\<close> and \<^verbatim>\<open>%\<close> are stripped, the field is classified numerical, whatever
  \<^verbatim>\<open>Date.parse\<close> says of its values; and in no dataset, empty or not, is such a field
  classified temporal. Bare years that \<^verbatim>\<open>Date.parse\<close> accepts are numerical.
\<close>

theorem numeric_check_takes_precedence_over_temporal:
  "(data \<noteq> [] \<and> f \<in> set fs
      \<and> list_all parsesAsNumber (inferenceValues (take 100 data) f) \<longrightarrow>
        map_of (inferColumnTypes dp data fs) f = Some ''numerical'')
   \<and> (list_all parsesAsNumber (inferenceValues (take 100 data) f) \<longrightarrow>
        map_of (inferColumnTypes dp data fs) f \<noteq> Some ''temporal'')
   \<and> (data \<noteq> [] \<and> f \<in> set fs \<longrightarrow>
        (map_of (inferColumnTypes dp data fs) f = Some ''numerical'')
          = list_all parsesAsNumber (inferenceValues (take 100 data) f))
   \<and> inferColumnTypes acceptingDateParse
        [[(''year'', JStr ''2023'')], [(''year'', JStr ''2024'')]] [''year'']
      = [(''year'', ''numerical'')]"
proof -
  have A: "data \<noteq> [] \<and> f \<in> set fs
      \<and> list_all parsesAsNumber (inferenceValues (take 100 data) f) \<longrightarrow>
        map_of (inferColumnTypes dp data fs) f = Some ''numerical''"
    by (simp add: map_of_inferColumnTypes inferType_numerical)
  have B: "list_all parsesAsNumber (inferenceValues (take 100 data) f) \<longrightarrow>
        map_of (inferColumnTypes dp data fs) f \<noteq> Some ''temporal''"
    using inferType_temporal[of dp "take 100 data" f]
    by (auto simp: map_of_inferColumnTypes)
  have C: "data \<noteq> [] \<and> f \<in> set fs \<longrightarrow>
        (map_of (inferColumnTypes dp data fs) f = Some ''numerical'')
          = list_all parsesAsNumber (inferenceValues (take 100 data) f)"
    by (simp add: map_of_inferColumnTypes inferType_numerical)
  have D: "inferColumnTypes acceptingDateParse
        [[(''year'', JStr ''2023'')], [(''year'', JStr ''2024'')]] [''year'']
      = [(''year'', ''numerical'')]"
    by code_simp
  show ?thesis by (intro conjI A B C D)
qed

text \<open>
  The amended C6 at a concrete dataset: the column \<^verbatim>\<open>"$1,200"\<close>, \<^verbatim>\<open>"45%"\<close>, \<^verbatim>\<open>null\<close>, \<^verbatim>\<open>2023\<close>,
  with a \<^verbatim>\<open>Date.parse\<close> that accepts every string, is numerical and not temporal.
\<close>

theorem numeric_check_takes_precedence_over_temporal_witness:
  "[[(''c'', JStr ''$1,200'')], [(''c'', JStr ''45%'')], [(''c'', JNull)], [(''c'', JStr ''2023'')]]
     \<noteq> []
   \<and> ''c'' \<in> set [''b'', ''c'']
   \<and> list_all parsesAsNumber
        (inferenceValues
           (take 100 [[(''c'', JStr ''$1,200'')], [(''c'', JStr ''45%'')], [(''c'', JNull)],
                      [(''c'', JStr ''2023'')]]) ''c'')
   \<and> map_of (inferColumnTypes acceptingDateParse
               [[(''c'', JStr ''$1,200'')], [(''c'', JStr ''45%'')], [(''c'', JNull)],
                [(''c'', JStr ''2023'')]] [''b'', ''c'']) ''c''
      = Some ''numerical''
   \<and> map_of (inferColumnTypes acceptingDateParse
               [[(''c'', JStr ''$1,200'')], [(''c'', JStr ''45%'')], [(''c'', JNull)],
                [(''c'', JStr ''2023'')]] [''b'', ''c'']) ''c''
      \<noteq> Some ''temporal''"
proof -
  let ?d = "[[(''c'', JStr ''$1,200'')], [(''c'', JStr ''45%'')], [(''c'', JNull)],
             [(''c'', JStr ''2023'')]]"
  note t = numeric_check_takes_precedence_over_temporal
             [where data = ?d and f = "''c''" and fs = "[''b'', ''c'']" and dp = acceptingDateParse]
  have p1: "?d \<noteq> []" by simp
  have p2: "''c'' \<in> set [''b'', ''c'']" by simp
  have p3: "list_all parsesAsNumber (inferenceValues (take 100 ?d) ''c'')" by code_simp
  from t p1 p2 p3
  have g1: "map_of (inferColumnTypes acceptingDateParse ?d [''b'', ''c'']) ''c'' = Some ''numerical''"
    by blast
  from t p3
  have g2: "map_of (inferColumnTypes acceptingDateParse ?d [''b'', ''c'']) ''c'' \<noteq> Some ''temporal''"
    by blast
  show ?thesis by (intro conjI p1 p2 p3 g1 g2)
qed

end
